theory Spec2Isabelle
  imports Main "HOL-Library.AList" "HOL-Library.Word"
begin

section \<open>Data model of the keyring state manager\<close>

text \<open>
  The embedding follows \<^verbatim>\<open>packages/ui-keyring/src/index.ts\<close>. JavaScript values that
  the code tests for truthiness or compares with \<^verbatim>\<open>===\<close> are kept as a small
  datatype; an object with free-form string keys (the metadata) is an association list in
  insertion order, which is the order \<^verbatim>\<open>Object.keys\<close> enumerates. An object holds
  one pair per key, and the operations below keep it so.
\<close>

datatype jsval = JUndefined | JNull | JBool bool | JNum int | JStr string

text \<open>ToBoolean of the language: what \<^verbatim>\<open>!v\<close> and \<^verbatim>\<open>if (v)\<close> test.\<close>

fun truthy :: "jsval \<Rightarrow> bool" where
  "truthy JUndefined = False"
| "truthy JNull = False"
| "truthy (JBool b) = b"
| "truthy (JNum n) = (n \<noteq> 0)"
| "truthy (JStr s) = (s \<noteq> [])"

type_synonym meta = "(string \<times> jsval) list"

text \<open>Reading a property: a missing key reads as \<^verbatim>\<open>undefined\<close>.\<close>

definition getProp :: "meta \<Rightarrow> string \<Rightarrow> jsval" where
  "getProp m k = (case map_of m k of None \<Rightarrow> JUndefined | Some v \<Rightarrow> v)"

text \<open>A destructuring default \<^verbatim>\<open>{ k = d }\<close> applies when the property reads as undefined.\<close>

definition getPropDefault :: "meta \<Rightarrow> string \<Rightarrow> jsval \<Rightarrow> jsval" where
  "getPropDefault m k d = (if getProp m k = JUndefined then d else getProp m k)"

type_synonym u8a = "8 word list"

text \<open>Every exception the modelled code can raise is a value.\<close>

datatype error =
  TypeError | AssertionError | WrongPassword | InvalidAddress | UnknownAddress | LockedPair

text \<open>\<^verbatim>\<open>KeyringJson\<close> / \<^verbatim>\<open>KeyringPair$Json\<close>: the serialized record of an account or an
  address; \<open>j_encoded\<close> is undefined for an address.\<close>

record keyring_json =
  j_address :: string
  j_encoded :: jsval
  j_meta :: meta

text \<open>\<^verbatim>\<open>KeyringSectionOption\<close>: a selectable option or a section header.\<close>

record section_option =
  o_className :: "string option"
  o_name :: string
  o_key :: string
  o_text :: string
  o_value :: "string option"

text \<open>\<^verbatim>\<open>SingleAddress\<close>: what an observable store holds for one address.\<close>

record single_address =
  s_json :: keyring_json
  s_option :: section_option

type_synonym subject_info = "(string \<times> single_address) list"

text \<open>\<^verbatim>\<open>KeyringOptions\<close>, the five sequences of \<^verbatim>\<open>emptyOptions\<close> (index.ts 27-35).\<close>

record keyring_options =
  opt_account :: "section_option list"
  opt_address :: "section_option list"
  opt_all :: "section_option list"
  opt_recent :: "section_option list"
  opt_testing :: "section_option list"

definition emptyOptions :: keyring_options where
  "emptyOptions =
     \<lparr> opt_account = [], opt_address = [], opt_all = [], opt_recent = [], opt_testing = [] \<rparr>"

section \<open>External collaborators\<close>

text \<open>
  Modelled from the spec: the key pair is an object of \<^verbatim>\<open>@polkadot/keyring\<close>, which is
  not among the source files. Section 3 (PairRecord): a public key, the decrypted secret
  key only while unlocked (\<open>p_secretKey = None\<close> is a locked pair), the encrypted
  serialized form, and free-form metadata.
\<close>

record pair =
  p_publicKey :: u8a
  p_secretKey :: "u8a option"
  p_meta :: meta
  p_encoded :: jsval

type_synonym registry = "(u8a \<times> pair) list"

text \<open>
  The address codec, the hex helpers, the PKCS8 coding and the testing keyring are library
  code outside the repository; the model takes them as parameters. \<open>decodeAddress\<close> and
  \<open>pkcs8Decode\<close> return \<open>None\<close> where the library throws. The order in which the
  persistent storage lists its keys is the storage's own: \<open>placeKey k ks\<close> is the position
  a new key \<open>k\<close> takes among the keys \<open>ks\<close> already listed.
\<close>

record ext =
  decodeAddress :: "string \<Rightarrow> u8a option"
  encodeAddress :: "u8a \<Rightarrow> string"
  isHex :: "string \<Rightarrow> bool"
  hexToU8a :: "string \<Rightarrow> u8a"
  pkcs8Decode :: "string \<Rightarrow> jsval \<Rightarrow> u8a option"
  pkcs8Encode :: "string option \<Rightarrow> u8a option \<Rightarrow> jsval"
  testKeyring :: registry
  placeKey :: "string \<Rightarrow> string list \<Rightarrow> nat"

text \<open>
  Modelled from the spec: the pair capability, which the code calls and section 4.2 lists:
  \<^verbatim>\<open>address()\<close>, \<^verbatim>\<open>isLocked()\<close>, \<^verbatim>\<open>lock()\<close> (discards the decrypted key
  material), \<^verbatim>\<open>decodePkcs8(password)\<close> (validates the password against the stored
  encrypted material, fails with WrongPassword) and \<^verbatim>\<open>toJson(password?)\<close> (the export:
  address, encrypted material, metadata). The export encodes the secret key, so it is the
  export of an unlocked pair: \<^verbatim>\<open>restoreAccount\<close> saves before it locks, "locking cleans
  secretKey, so needs to be last" (index.ts 342). The metadata of the export is the pair's
  own metadata object, not a copy: a write into the one is a write into the other.
\<close>

definition address :: "ext \<Rightarrow> pair \<Rightarrow> string" where
  "address x p = encodeAddress x (p_publicKey p)"

definition isLocked :: "pair \<Rightarrow> bool" where
  "isLocked p = (p_secretKey p = None)"

definition lock :: "pair \<Rightarrow> pair" where
  "lock p = p\<lparr> p_secretKey := None \<rparr>"

definition decodePkcs8 :: "ext \<Rightarrow> string \<Rightarrow> pair \<Rightarrow> error + pair" where
  "decodePkcs8 x password p =
     (case pkcs8Decode x password (p_encoded p) of
        None \<Rightarrow> Inl WrongPassword
      | Some sk \<Rightarrow> Inr (p\<lparr> p_secretKey := Some sk \<rparr>))"

definition toJson :: "ext \<Rightarrow> string option \<Rightarrow> pair \<Rightarrow> keyring_json" where
  "toJson x password p =
     \<lparr> j_address = address x p,
       j_encoded = pkcs8Encode x password (p_secretKey p),
       j_meta = p_meta p \<rparr>"

text \<open>
  Modelled from the spec: the pair registry of section 4.2, keyed by public key, in
  insertion order. \<^verbatim>\<open>addFromJson\<close> builds a locked pair from an export the way
  \<^verbatim>\<open>restoreAccount\<close> (index.ts 333-340) does: the public key is the decoded address, the
  metadata and the encrypted material are the export's; it does not decrypt.
\<close>

definition addPair_reg :: "pair \<Rightarrow> registry \<Rightarrow> registry" where
  "addPair_reg p kr = AList.update (p_publicKey p) p kr"

definition addFromJson :: "ext \<Rightarrow> keyring_json \<Rightarrow> registry \<Rightarrow> error + (pair \<times> registry)" where
  "addFromJson x json kr =
     (case decodeAddress x (j_address json) of
        None \<Rightarrow> Inl InvalidAddress
      | Some pk \<Rightarrow>
          (let p = \<lparr> p_publicKey = pk, p_secretKey = None, p_meta = j_meta json,
                     p_encoded = j_encoded json \<rparr>
           in Inr (p, addPair_reg p kr)))"

definition getPairs_reg :: "registry \<Rightarrow> pair list" where
  "getPairs_reg kr = map snd kr"

definition getPair_reg :: "ext \<Rightarrow> string \<Rightarrow> registry \<Rightarrow> error + pair" where
  "getPair_reg x a kr =
     (case decodeAddress x a of
        None \<Rightarrow> Inl InvalidAddress
      | Some pk \<Rightarrow> (case map_of kr pk of None \<Rightarrow> Inl UnknownAddress | Some p \<Rightarrow> Inr p))"

section \<open>Observable stores\<close>

text \<open>
  Modelled from the spec: \<^verbatim>\<open>./observable/accounts\<close> and \<^verbatim>\<open>./observable/addresses\<close>
  (and the option constructor they call) are not among the source files. Section 4.3 gives
  their contract: \<^verbatim>\<open>add(address, json)\<close> is an upsert into the mapping address \<open>\<rightarrow>\<close>
  stored entry, \<^verbatim>\<open>remove(address)\<close> deletes and is silent when the address is absent,
  and the subscribable current value is that mapping, in insertion order (section 4.5).
  The stored entry is the record with its derived option (id, display text).
\<close>

definition createOptionItem :: "string \<Rightarrow> jsval \<Rightarrow> section_option" where
  "createOptionItem a nm =
     (let name = (case nm of JStr s \<Rightarrow> s | _ \<Rightarrow> a)
      in \<lparr> o_className = None, o_name = name, o_key = a, o_text = name, o_value = Some a \<rparr>)"

definition obs_add :: "string \<Rightarrow> keyring_json \<Rightarrow> subject_info \<Rightarrow> subject_info" where
  "obs_add a json current =
     AList.update a
       \<lparr> s_json = json, s_option = createOptionItem a (getProp (j_meta json) ''name'') \<rparr>
       current"

definition obs_remove :: "string \<Rightarrow> subject_info \<Rightarrow> subject_info" where
  "obs_remove a current = AList.delete a current"

text \<open>\<^verbatim>\<open>subject.getValue()[address]\<close>: the entry, or undefined (\<open>None\<close>).\<close>

definition entry :: "subject_info \<Rightarrow> string \<Rightarrow> single_address option" where
  "entry current a = map_of current a"

text \<open>\<^verbatim>\<open>State\<close> of \<^verbatim>\<open>./types\<close>: the two observable stores and the pair registry.\<close>

record state =
  accounts :: subject_info
  addresses :: subject_info
  keyring :: registry

section \<open>The facade: accounts, addresses, handles\<close>

text \<open>A method argument typed \<^verbatim>\<open>string | Uint8Array\<close>.\<close>

datatype address_arg = AString string | ABytes u8a

datatype address_type = Account | Address

text \<open>\<^verbatim>\<open>isString(_address) ? _address : encodeAddress(_address)\<close>.\<close>

definition toAddress :: "ext \<Rightarrow> address_arg \<Rightarrow> string" where
  "toAddress x a = (case a of AString s \<Rightarrow> s | ABytes u \<Rightarrow> encodeAddress x u)"

text \<open>\<^verbatim>\<open>addPairs\<close> (index.ts 109-122).\<close>

definition addPairs :: "ext \<Rightarrow> state \<Rightarrow> state" where
  "addPairs x st =
     fold (\<lambda>p s. s\<lparr> accounts :=
                      obs_add (address x p)
                        \<lparr> j_address = address x p, j_encoded = JUndefined, j_meta = p_meta p \<rparr>
                        (accounts s) \<rparr>)
          (getPairs_reg (keyring st)) st"

text \<open>
  \<^verbatim>\<open>backupAccount\<close> (index.ts 124-132). The pair is an object the method mutates, so the
  result carries the pair as the call leaves it, also when the call throws.
\<close>

definition backupAccount :: "ext \<Rightarrow> pair \<Rightarrow> string \<Rightarrow> pair \<times> (error + keyring_json)" where
  "backupAccount x p password =
     (let p1 = (if \<not> isLocked p then lock p else p)
      in case decodePkcs8 x password p1 of
           Inl e \<Rightarrow> (p1, Inl e)
         | Inr p2 \<Rightarrow> (p2, Inr (toJson x (Some password) p2)))"

text \<open>\<^verbatim>\<open>name.toLowerCase()\<close> on the letters A-Z.\<close>

definition toLowerChar :: "char \<Rightarrow> char" where
  "toLowerChar c =
     (let n = (of_char c :: nat) in if 65 \<le> n \<and> n \<le> 90 then char_of (n + 32) else c)"

definition toLowerCase :: "string \<Rightarrow> string" where
  "toLowerCase s = map toLowerChar s"

text \<open>\<^verbatim>\<open>createOptionHeader\<close> (index.ts 150-158); \<^verbatim>\<open>value: null\<close> is \<open>None\<close>.\<close>

definition createOptionHeader :: "string \<Rightarrow> section_option" where
  "createOptionHeader name =
     \<lparr> o_className = Some ''header disabled'', o_name = name,
       o_key = ''header-'' @ toLowerCase name, o_text = name, o_value = None \<rparr>"

text \<open>
  \<^verbatim>\<open>getAddress\<close> (index.ts 194-215). The handle's four closures read the store when they
  are called, so the handle keeps the address, the public key and which subject it reads,
  and \<open>isValid\<close> and \<open>getMeta\<close> take the state at the time of the call.
\<close>

record keyring_address =
  ka_address :: string
  ka_publicKey :: u8a
  ka_type :: address_type

definition getAddress :: "ext \<Rightarrow> address_arg \<Rightarrow> address_type \<Rightarrow> error + keyring_address" where
  "getAddress x a ty =
     (let addr = toAddress x a
      in case decodeAddress x addr of
           None \<Rightarrow> Inl InvalidAddress
         | Some publicKey \<Rightarrow>
             Inr \<lparr> ka_address = addr, ka_publicKey = publicKey, ka_type = ty \<rparr>)"

definition subject :: "state \<Rightarrow> address_type \<Rightarrow> subject_info" where
  "subject st ty = (case ty of Account \<Rightarrow> accounts st | Address \<Rightarrow> addresses st)"

definition isValid :: "state \<Rightarrow> keyring_address \<Rightarrow> bool" where
  "isValid st h = (entry (subject st (ka_type h)) (ka_address h) \<noteq> None)"

text \<open>\<^verbatim>\<open>subject.getValue()[address].json.meta\<close>: a TypeError on a missing entry.\<close>

definition getMeta :: "state \<Rightarrow> keyring_address \<Rightarrow> error + meta" where
  "getMeta st h =
     (case entry (subject st (ka_type h)) (ka_address h) of
        None \<Rightarrow> Inl TypeError
      | Some e \<Rightarrow> Inr (j_meta (s_json e)))"

text \<open>\<^verbatim>\<open>Array.map\<close> and \<^verbatim>\<open>Array.filter\<close> with a callback that can throw.\<close>

fun mapE :: "('a \<Rightarrow> error + 'b) \<Rightarrow> 'a list \<Rightarrow> error + 'b list" where
  "mapE f [] = Inr []"
| "mapE f (a # as) =
     (case f a of
        Inl e \<Rightarrow> Inl e
      | Inr b \<Rightarrow> (case mapE f as of Inl e \<Rightarrow> Inl e | Inr bs \<Rightarrow> Inr (b # bs)))"

fun filterE :: "('a \<Rightarrow> error + bool) \<Rightarrow> 'a list \<Rightarrow> error + 'a list" where
  "filterE f [] = Inr []"
| "filterE f (a # as) =
     (case f a of
        Inl e \<Rightarrow> Inl e
      | Inr keep \<Rightarrow>
          (case filterE f as of
             Inl e \<Rightarrow> Inl e
           | Inr bs \<Rightarrow> Inr (if keep then a # bs else bs)))"

text \<open>\<^verbatim>\<open>getAccounts\<close> (index.ts 181-192) and \<^verbatim>\<open>getAddresses\<close> (217-225).\<close>

definition getAccounts :: "ext \<Rightarrow> state \<Rightarrow> error + keyring_address list" where
  "getAccounts x st =
     (let available = accounts st
      in case mapE (\<lambda>a. getAddress x (AString a) Account) (map fst available) of
           Inl e \<Rightarrow> Inl e
         | Inr hs \<Rightarrow>
             filterE (\<lambda>account. case getMeta st account of
                                   Inl e \<Rightarrow> Inl e
                                 | Inr m \<Rightarrow> Inr (\<not> truthy (getProp m ''isTesting''))) hs)"

definition getAddresses :: "ext \<Rightarrow> state \<Rightarrow> error + keyring_address list" where
  "getAddresses x st =
     mapE (\<lambda>a. getAddress x (AString a) Address) (map fst (addresses st))"

text \<open>
  \<^verbatim>\<open>getPairs\<close> (index.ts 231-235); \<open>isDevelopment\<close> is the reading of the process-wide
  flag, \<^verbatim>\<open>observableDevelopment.isDevelopment()\<close>.
\<close>

definition getPairs :: "bool \<Rightarrow> state \<Rightarrow> pair list" where
  "getPairs isDevelopment st =
     filter (\<lambda>p. isDevelopment \<or> getProp (p_meta p) ''isTesting'' \<noteq> JBool True)
            (getPairs_reg (keyring st))"

text \<open>\<^verbatim>\<open>isAvailable\<close> (index.ts 274-285).\<close>

definition isAvailable :: "ext \<Rightarrow> state \<Rightarrow> address_arg \<Rightarrow> bool" where
  "isAvailable x st a =
     (let accountsSubject = accounts st; addressesSubject = addresses st;
          addr = toAddress x a
      in entry accountsSubject addr = None \<and> entry addressesSubject addr = None)"

section \<open>The options aggregator\<close>

text \<open>
  \<^verbatim>\<open>addAccounts\<close> and \<^verbatim>\<open>addAddresses\<close> (index.ts 64-96):
  \<^verbatim>\<open>Object.keys(available).map((address) => available[address])\<close> is the store's entries
  in key order, and \<^verbatim>\<open>forEach\<close> pushes each option onto one of two sequences.
\<close>

definition addAccounts :: "state \<Rightarrow> keyring_options \<Rightarrow> keyring_options" where
  "addAccounts st options =
     fold (\<lambda>sa opts.
             if \<not> truthy (getPropDefault (j_meta (s_json sa)) ''isTesting'' (JBool False))
             then opts\<lparr> opt_account := opt_account opts @ [s_option sa] \<rparr>
             else opts\<lparr> opt_testing := opt_testing opts @ [s_option sa] \<rparr>)
          (map snd (accounts st)) options"

definition addAddresses :: "state \<Rightarrow> keyring_options \<Rightarrow> keyring_options" where
  "addAddresses st options =
     fold (\<lambda>sa opts.
             if truthy (getPropDefault (j_meta (s_json sa)) ''isRecent'' (JBool False))
             then opts\<lparr> opt_recent := opt_recent opts @ [s_option sa] \<rparr>
             else opts\<lparr> opt_address := opt_address opts @ [s_option sa] \<rparr>)
          (map snd (addresses st)) options"

text \<open>
  The subscriber of \<^verbatim>\<open>initOptions\<close> (index.ts 243-271): what is pushed to the options
  subject on every emission of the stores.
\<close>

definition recomputeOptions :: "state \<Rightarrow> keyring_options" where
  "recomputeOptions st =
     (let options = emptyOptions;
          options = addAccounts st options;
          options = addAddresses st options;
          options = options\<lparr> opt_address :=
            (if opt_address options \<noteq> [] then [createOptionHeader ''Addresses''] else []) @
            opt_address options @
            (if opt_recent options \<noteq> [] then [createOptionHeader ''Recent''] else []) @
            opt_recent options \<rparr>;
          options = options\<lparr> opt_account :=
            (if opt_account options \<noteq> [] then [createOptionHeader ''Accounts''] else []) @
            opt_account options @
            (if opt_testing options \<noteq> [] then [createOptionHeader ''Development''] else []) @
            opt_testing options \<rparr>;
          options = options\<lparr> opt_all := opt_account options @ opt_address options \<rparr>
      in options)"

section \<open>The facade: saving\<close>

text \<open>
  \<^verbatim>\<open>saveAccount\<close> (index.ts 351-362); \<open>now\<close> is the reading of \<^verbatim>\<open>Date.now()\<close>.
  The pair is an object the method mutates: the export of line 354 carries the pair's own
  metadata object, so the stamp of line 357 lands in the pair's metadata, and the result
  carries the pair as the call leaves it, also when the call throws. The export of a
  locked pair throws before anything is changed; when \<^verbatim>\<open>addFromJson\<close> throws, the
  stamp is made and the state is unchanged.
\<close>

definition saveAccount ::
  "ext \<Rightarrow> state \<Rightarrow> pair \<Rightarrow> string option \<Rightarrow> int \<Rightarrow> pair \<times> (error + state)" where
  "saveAccount x st p password now =
     (if isLocked p then (p, Inl LockedPair)
      else
        (let json = toJson x password p;
             json = (if \<not> truthy (getProp (j_meta json) ''whenCreated'')
                     then json\<lparr> j_meta := AList.update ''whenCreated'' (JNum now) (j_meta json) \<rparr>
                     else json);
             p' = p\<lparr> p_meta := j_meta json \<rparr>
         in case addFromJson x json (keyring st) of
              Inl e \<Rightarrow> (p', Inl e)
            | Inr (_, kr) \<Rightarrow>
                (p', Inr (st\<lparr> keyring := kr,
                             accounts := obs_add (j_address json) json (accounts st) \<rparr>))))"

text \<open>\<^verbatim>\<open>saveAddressMeta\<close> (index.ts 374-394).\<close>

definition saveAddressMeta :: "state \<Rightarrow> string \<Rightarrow> meta \<Rightarrow> int \<Rightarrow> state" where
  "saveAddressMeta st a m now =
     (let available = addresses st;
          json = (case entry available a of
                    Some e \<Rightarrow> s_json e
                  | None \<Rightarrow>
                      \<lparr> j_address = a, j_encoded = JUndefined,
                        j_meta = [(''isRecent'', JUndefined), (''whenCreated'', JNum now)] \<rparr>);
          json = json\<lparr> j_meta :=
                   fold (\<lambda>key jm. AList.update key (getProp m key) jm) (map fst m) (j_meta json) \<rparr>;
          json = json\<lparr> j_meta := AList.delete ''isRecent'' (j_meta json) \<rparr>
      in st\<lparr> addresses := obs_add a json (addresses st) \<rparr>)"

text \<open>
  \<^verbatim>\<open>saveRecent\<close> (index.ts 396-414): the new state and the entry the method returns
  (\<open>None\<close> is undefined). \<open>recentJson\<close> is the object literal of lines 402-408.
\<close>

definition recentJson :: "string \<Rightarrow> int \<Rightarrow> keyring_json" where
  "recentJson a now =
     \<lparr> j_address = a, j_encoded = JUndefined,
       j_meta = [(''isRecent'', JBool True), (''whenCreated'', JNum now)] \<rparr>"

definition saveRecent :: "state \<Rightarrow> string \<Rightarrow> int \<Rightarrow> state \<times> single_address option" where
  "saveRecent st a now =
     (let available = addresses st;
          st' = (if entry available a = None
                 then st\<lparr> addresses := obs_add a (recentJson a now) (addresses st) \<rparr>
                 else st)
      in (st', entry (addresses st') a))"

section \<open>The persistent store and the bulk load\<close>

text \<open>
  A record as the persistent store holds it. It was parsed from stored text, so its
  \<^verbatim>\<open>meta\<close> can be missing; \<open>withMeta\<close> is the record once \<^verbatim>\<open>json.meta\<close> has been
  dereferenced, \<open>None\<close> where the dereference is a TypeError.
\<close>

record stored_json =
  sj_address :: string
  sj_encoded :: jsval
  sj_meta :: "meta option"

definition withMeta :: "stored_json \<Rightarrow> keyring_json option" where
  "withMeta sj =
     (case sj_meta sj of
        None \<Rightarrow> None
      | Some m \<Rightarrow> Some \<lparr> j_address = sj_address sj, j_encoded = sj_encoded sj, j_meta = m \<rparr>)"

definition stored :: "keyring_json \<Rightarrow> stored_json" where
  "stored json =
     \<lparr> sj_address = j_address json, sj_encoded = j_encoded json, sj_meta = Some (j_meta json) \<rparr>"

text \<open>
  Modelled from the spec: the persistent store is the \<^verbatim>\<open>store\<close> package over the
  browser's storage, which is not among the source files. Section 4.1 gives its
  operations: get, set, remove, and an enumeration with a visitor, with no transactional
  guarantee. The store is the list of its entries in the order the storage lists its keys:
  \<^verbatim>\<open>set\<close> replaces the value of a key it holds and puts a new key where the storage
  places it, \<^verbatim>\<open>remove\<close> deletes the key.
\<close>

type_synonym persistent = "(string \<times> stored_json) list"

definition store_get :: "persistent \<Rightarrow> string \<Rightarrow> stored_json option" where
  "store_get s k = map_of s k"

definition insertAt :: "nat \<Rightarrow> 'a \<Rightarrow> 'a list \<Rightarrow> 'a list" where
  "insertAt n e xs = take n xs @ e # drop n xs"

definition store_set :: "ext \<Rightarrow> string \<Rightarrow> stored_json \<Rightarrow> persistent \<Rightarrow> persistent" where
  "store_set x k v s =
     (if map_of s k = None then insertAt (placeKey x k (map fst s)) (k, v) s
      else AList.update k v s)"

definition store_remove :: "string \<Rightarrow> persistent \<Rightarrow> persistent" where
  "store_remove k s = AList.delete k s"

text \<open>\<^verbatim>\<open>u8aToHex\<close> of \<^verbatim>\<open>@polkadot/util\<close>: 0x and two lower-case digits per byte.\<close>

definition hexDigit :: "nat \<Rightarrow> char" where
  "hexDigit n = ''0123456789abcdef'' ! n"

definition hexByte :: "8 word \<Rightarrow> string" where
  "hexByte b = [hexDigit (unat b div 16), hexDigit (unat b mod 16)]"

definition u8aToHex :: "u8a \<Rightarrow> string" where
  "u8aToHex u = ''0x'' @ concat (map hexByte u)"

text \<open>
  Modelled from the spec: \<^verbatim>\<open>./defaults\<close> (\<^verbatim>\<open>accountKey\<close>, \<^verbatim>\<open>addressKey\<close>,
  \<^verbatim>\<open>accountRegex\<close>, \<^verbatim>\<open>addressRegex\<close>) is not among the source files. Sections 4.1
  and 6: keys are namespaced by the fixed string prefixes \<^verbatim>\<open>account:\<close> and
  \<^verbatim>\<open>address:\<close>, followed by the address in hex or encoded form; the canonical key carries
  the hex form, which is the 0x-prefixed hex of the address's public key. Building a key
  throws when the address does not decode.
\<close>

definition accountRegex :: "string \<Rightarrow> bool" where
  "accountRegex key = (take 8 key = ''account:'')"

definition addressRegex :: "string \<Rightarrow> bool" where
  "addressRegex key = (take 8 key = ''address:'')"

definition accountKey :: "ext \<Rightarrow> string \<Rightarrow> error + string" where
  "accountKey x a =
     (case decodeAddress x a of
        None \<Rightarrow> Inl InvalidAddress
      | Some pk \<Rightarrow> Inr (''account:'' @ u8aToHex pk))"

definition addressKey :: "ext \<Rightarrow> string \<Rightarrow> error + string" where
  "addressKey x a =
     (case decodeAddress x a of
        None \<Rightarrow> Inl InvalidAddress
      | Some pk \<Rightarrow> Inr (''address:'' @ u8aToHex pk))"

text \<open>\<^verbatim>\<open>String.prototype.split\<close> on a one-character separator.\<close>

fun split :: "char \<Rightarrow> string \<Rightarrow> string list" where
  "split c [] = [] # []"
| "split c (d # ds) =
     (if d = c then [] # split c ds
      else (case split c ds of [] \<Rightarrow> [d] # [] | w # ws \<Rightarrow> (d # w) # ws))"

text \<open>\<^verbatim>\<open>const [, hexAddr] = key.split(':')\<close>: the second segment, or undefined.\<close>

definition hexAddrOf :: "string \<Rightarrow> string option" where
  "hexAddrOf key = (case split CHR '':'' key of _ # h # _ \<Rightarrow> Some h | _ \<Rightarrow> None)"

text \<open>
  What a facade instance works on besides its \<^verbatim>\<open>State\<close>: the persistent store and the
  static flag \<^verbatim>\<open>Keyring.hasCalledInitOptions\<close>.
\<close>

record world =
  w_state :: state
  w_store :: persistent
  w_hasCalledInitOptions :: bool

text \<open>
  \<^verbatim>\<open>initOptions\<close> (index.ts 237-272): a call with the flag set only warns. Otherwise it
  subscribes \<open>recomputeOptions\<close> to the stores; the stores publish their current value
  synchronously (section 4.3), so the subscriber runs at once and sets the flag.
\<close>

definition initOptions :: "world \<Rightarrow> world" where
  "initOptions w =
     (if w_hasCalledInitOptions w then w else w\<lparr> w_hasCalledInitOptions := True \<rparr>)"

text \<open>
  Modelled from the spec: \<^verbatim>\<open>accounts.add\<close> and \<^verbatim>\<open>addresses.add\<close> on the bulk-load
  path. Section 3 makes the persistent store the durable source of truth for the entries,
  section 4.6 has \<^verbatim>\<open>loadAll\<close> register and persist, and \<^verbatim>\<open>saveAccountMeta\<close>
  (index.ts 366) reads a record back under \<^verbatim>\<open>accountKey(address)\<close> that only
  \<^verbatim>\<open>add\<close> can have written. So \<^verbatim>\<open>add\<close> derives the option from \<^verbatim>\<open>json.meta\<close>
  (a TypeError when the record has none), builds the store's key for the address (a throw
  when the address does not decode), and then upserts the entry and writes the record
  under that key.
\<close>

definition accountsAdd :: "ext \<Rightarrow> string \<Rightarrow> stored_json \<Rightarrow> world \<Rightarrow> world \<times> error option" where
  "accountsAdd x a sj w =
     (case withMeta sj of
        None \<Rightarrow> (w, Some TypeError)
      | Some json \<Rightarrow>
          (case accountKey x a of
             Inl e \<Rightarrow> (w, Some e)
           | Inr k \<Rightarrow>
               (w\<lparr> w_state := (w_state w)\<lparr> accounts := obs_add a json (accounts (w_state w)) \<rparr>,
                   w_store := store_set x k sj (w_store w) \<rparr>, None)))"

definition addressesAdd :: "ext \<Rightarrow> string \<Rightarrow> stored_json \<Rightarrow> world \<Rightarrow> world \<times> error option" where
  "addressesAdd x a sj w =
     (case withMeta sj of
        None \<Rightarrow> (w, Some TypeError)
      | Some json \<Rightarrow>
          (case addressKey x a of
             Inl e \<Rightarrow> (w, Some e)
           | Inr k \<Rightarrow>
               (w\<lparr> w_state := (w_state w)\<lparr> addresses := obs_add a json (addresses (w_state w)) \<rparr>,
                   w_store := store_set x k sj (w_store w) \<rparr>, None)))"

text \<open>
  The visitor of \<^verbatim>\<open>store.each\<close> in \<^verbatim>\<open>loadAll\<close> (index.ts 296-325). It returns the
  world as the visitor leaves it and the exception it threw, if any: a throw keeps the
  effects made before it (\<^verbatim>\<open>store.remove(key)\<close> runs before the new key is built).
  Line 298 dereferences \<^verbatim>\<open>json.meta\<close>.
\<close>

definition loadAccount :: "ext \<Rightarrow> string \<Rightarrow> stored_json \<Rightarrow> world \<Rightarrow> world \<times> error option" where
  "loadAccount x key sj w =
     (case withMeta sj of
        None \<Rightarrow> (w, Some TypeError)
      | Some json \<Rightarrow>
          (case (if \<not> truthy (getProp (j_meta json) ''isTesting'') \<and> truthy (j_encoded json)
                 then (case addFromJson x json (keyring (w_state w)) of
                         Inl e \<Rightarrow> (w, Some e)
                       | Inr (p, kr) \<Rightarrow>
                           accountsAdd x (address x p) sj
                             (w\<lparr> w_state := (w_state w)\<lparr> keyring := kr \<rparr> \<rparr>))
                 else (w, None)) of
             (w1, Some e) \<Rightarrow> (w1, Some e)
           | (w1, None) \<Rightarrow>
               (case hexAddrOf key of
                  None \<Rightarrow> (w1, Some TypeError)
                | Some hexAddr \<Rightarrow>
                    if take 2 hexAddr \<noteq> ''0x''
                    then (let w2 = w1\<lparr> w_store := store_remove key (w_store w1) \<rparr>
                          in case accountKey x hexAddr of
                               Inl e \<Rightarrow> (w2, Some e)
                             | Inr k \<Rightarrow> (w2\<lparr> w_store := store_set x k sj (w_store w2) \<rparr>, None))
                    else (w1, None))))"

definition loadAddress :: "ext \<Rightarrow> string \<Rightarrow> stored_json \<Rightarrow> world \<Rightarrow> world \<times> error option" where
  "loadAddress x key sj w =
     (case (if isHex x (sj_address sj) then Some (hexToU8a x (sj_address sj))
            else decodeAddress x (sj_address sj)) of
        None \<Rightarrow> (w, Some InvalidAddress)
      | Some u \<Rightarrow>
          (case addressesAdd x (encodeAddress x u) sj w of
             (w1, Some e) \<Rightarrow> (w1, Some e)
           | (w1, None) \<Rightarrow>
               (case hexAddrOf key of
                  None \<Rightarrow> (w1, Some TypeError)
                | Some hexAddr \<Rightarrow>
                    if take 2 hexAddr \<noteq> ''0x''
                    then (let w2 = w1\<lparr> w_store := store_remove key (w_store w1) \<rparr>
                          in case addressKey x hexAddr of
                               Inl e \<Rightarrow> (w2, Some e)
                             | Inr k \<Rightarrow> (w2\<lparr> w_store := store_set x k sj (w_store w2) \<rparr>, None))
                    else (w1, None))))"

definition loadEntry :: "ext \<Rightarrow> string \<times> stored_json \<Rightarrow> world \<Rightarrow> world \<times> error option" where
  "loadEntry x kv w =
     (let key = fst kv; json = snd kv
      in if accountRegex key then loadAccount x key json w
         else if addressRegex key then loadAddress x key json w
         else (w, None))"

text \<open>
  The vocabulary of the migration. A key is in legacy form when the test of lines 306 and
  320 holds of it, that is, when its second segment does not start with 0x; the visitor
  migrates a key that one of the two patterns matches and that is in legacy form, and
  \<open>canonicalKey\<close> is the key that lines 308 and 322 then write.
\<close>

definition isLegacyKey :: "string \<Rightarrow> bool" where
  "isLegacyKey key = (case hexAddrOf key of None \<Rightarrow> False | Some hexAddr \<Rightarrow> take 2 hexAddr \<noteq> ''0x'')"

definition migrated :: "string \<Rightarrow> bool" where
  "migrated key = ((accountRegex key \<or> addressRegex key) \<and> isLegacyKey key)"

definition canonicalKey :: "ext \<Rightarrow> string \<Rightarrow> error + string" where
  "canonicalKey x key =
     (case hexAddrOf key of
        None \<Rightarrow> Inl TypeError
      | Some hexAddr \<Rightarrow> if accountRegex key then accountKey x hexAddr else addressKey x hexAddr)"

text \<open>
  Modelled from the spec: \<^verbatim>\<open>store.each(visitor)\<close>. The enumeration gives no guarantee
  against the visitor's own writes (section 4.1): it walks the positions of the storage's
  key list from the last one down, and at each position hands the visitor the entry the
  store holds there at that moment, until the visitor throws. What it hands out therefore
  depends on where the storage places the keys the visitor writes. A position the list
  no longer has is passed over.
\<close>

fun eachFrom ::
  "(string \<times> stored_json \<Rightarrow> world \<Rightarrow> world \<times> error option) \<Rightarrow> nat \<Rightarrow> world \<Rightarrow> world \<times> error option"
where
  "eachFrom f 0 w = (w, None)"
| "eachFrom f (Suc i) w =
     (if i < length (w_store w)
      then (case f (w_store w ! i) w of
              (w', Some e) \<Rightarrow> (w', Some e)
            | (w', None) \<Rightarrow> eachFrom f i w')
      else eachFrom f i w)"

definition each ::
  "(string \<times> stored_json \<Rightarrow> world \<Rightarrow> world \<times> error option) \<Rightarrow> world \<Rightarrow> world \<times> error option"
where
  "each f w = eachFrom f (length (w_store w)) w"

text \<open>
  The visitor on a given sequence of entries, one after the other, until it throws:
  what any enumeration amounts to, whichever entries it hands out.
\<close>

fun visits ::
  "(string \<times> stored_json \<Rightarrow> world \<Rightarrow> world \<times> error option) \<Rightarrow> (string \<times> stored_json) list \<Rightarrow>
     world \<Rightarrow> world \<times> error option"
where
  "visits f [] w = (w, None)"
| "visits f (kv # kvs) w =
     (case f kv w of
        (w', Some e) \<Rightarrow> (w', Some e)
      | (w', None) \<Rightarrow> visits f kvs w')"

text \<open>\<^verbatim>\<open>loadAll\<close> (index.ts 291-328).\<close>

definition loadAll :: "ext \<Rightarrow> world \<Rightarrow> world \<times> error option" where
  "loadAll x w =
     (let w1 = w\<lparr> w_state := addPairs x (w_state w) \<rparr>
      in case each (loadEntry x) w1 of
           (w2, Some e) \<Rightarrow> (w2, Some e)
         | (w2, None) \<Rightarrow> (initOptions w2, None))"

section \<open>Construction\<close>








section \<open>Sample collaborators and states\<close>

text \<open>
  A small codec and cipher to run the model on concrete inputs: two addresses in encoded
  form, a cipher that accepts exactly the password \<open>pw\<close>, and a storage that lists a
  new key after the keys it holds.
\<close>

definition sampleExt :: ext where
  "sampleExt =
     \<lparr> decodeAddress = (\<lambda>s. if s = ''5Alice'' then Some [1] else
                              if s = ''5Bob'' then Some [2] else None),
       encodeAddress = (\<lambda>u. if u = [1] then ''5Alice'' else if u = [2] then ''5Bob'' else ''5Other''),
       isHex = (\<lambda>s. take 2 s = ''0x''),
       hexToU8a = (\<lambda>s. if s = ''0x01'' then [1] else if s = ''0x02'' then [2] else []),
       pkcs8Decode = (\<lambda>password enc. if password = ''pw'' then Some [7] else None),
       pkcs8Encode = (\<lambda>password sk. JStr ''0xencoded''),
       testKeyring = [],
       placeKey = (\<lambda>k ks. length ks) \<rparr>"

definition emptyState :: state where
  "emptyState = \<lparr> accounts = [], addresses = [], keyring = [] \<rparr>"

text \<open>The address store after \<^verbatim>\<open>saveRecent('5Alice')\<close> at time 1000 on the empty state.\<close>

definition aliceRecent :: single_address where
  "aliceRecent =
     \<lparr> s_json = recentJson ''5Alice'' 1000,
       s_option = \<lparr> o_className = None, o_name = ''5Alice'', o_key = ''5Alice'',
                    o_text = ''5Alice'', o_value = Some ''5Alice'' \<rparr> \<rparr>"

definition recentState :: state where
  "recentState = \<lparr> accounts = [], addresses = [(''5Alice'', aliceRecent)], keyring = [] \<rparr>"

text \<open>
  Two pairs and their accounts: alice, unlocked; bob, locked and flagged as a testing
  account. \<open>accountsState\<close> holds both accounts, added in that order, and alice as a
  recent address.
\<close>

definition alicePair :: pair where
  "alicePair =
     \<lparr> p_publicKey = [1], p_secretKey = Some [7], p_meta = [(''name'', JStr ''alice'')],
       p_encoded = JStr ''0xencoded'' \<rparr>"

definition bobPair :: pair where
  "bobPair =
     \<lparr> p_publicKey = [2], p_secretKey = None, p_meta = [(''isTesting'', JBool True)],
       p_encoded = JStr ''0xencoded'' \<rparr>"

definition aliceJson :: keyring_json where
  "aliceJson =
     \<lparr> j_address = ''5Alice'', j_encoded = JStr ''0xencoded'',
       j_meta = [(''name'', JStr ''alice'')] \<rparr>"

definition bobJson :: keyring_json where
  "bobJson =
     \<lparr> j_address = ''5Bob'', j_encoded = JStr ''0xencoded'',
       j_meta = [(''isTesting'', JBool True)] \<rparr>"

definition accountsState :: state where
  "accountsState =
     \<lparr> accounts = obs_add ''5Bob'' bobJson (obs_add ''5Alice'' aliceJson []),
       addresses = [(''5Alice'', aliceRecent)],
       keyring = [([1], alicePair), ([2], bobPair)] \<rparr>"

text \<open>
  Persistent stores. \<open>legacyStore\<close> holds alice's account under a key in legacy form and
  bob's address under a canonical key. \<open>twoLegacyStore\<close> holds the accounts of alice and
  bob, both under keys in legacy form. \<open>staleStore\<close> holds, under a key in legacy form,
  an account record without export material whose address the codec does not decode.
  \<open>sortingExt\<close> is the sample collaborators over a storage that lists a new key before
  the keys it holds, as a storage that keeps its keys sorted does with a key in 0x form
  among keys in encoded form.
\<close>

definition bobAddressJson :: keyring_json where
  "bobAddressJson = \<lparr> j_address = ''5Bob'', j_encoded = JUndefined, j_meta = [] \<rparr>"

definition legacyStore :: persistent where
  "legacyStore =
     [(''account:5Alice'', stored aliceJson), (''address:0x02'', stored bobAddressJson)]"

definition twoLegacyStore :: persistent where
  "twoLegacyStore = [(''account:5Alice'', stored aliceJson), (''account:5Bob'', stored bobJson)]"

definition carolJson :: keyring_json where
  "carolJson =
     \<lparr> j_address = ''5Carol'', j_encoded = JUndefined, j_meta = [(''name'', JStr ''carol'')] \<rparr>"

definition staleStore :: persistent where
  "staleStore = [(''account:5Carol'', stored carolJson)]"

definition sortingExt :: ext where
  "sortingExt = sampleExt\<lparr> placeKey := (\<lambda>k ks. 0) \<rparr>"

definition worldOver :: "persistent \<Rightarrow> world" where
  "worldOver s = \<lparr> w_state = emptyState, w_store = s, w_hasCalledInitOptions = False \<rparr>"

section \<open>Facts about the stores\<close>

lemma entry_obs_add_same:
  "entry (obs_add a j cur) a =
     Some \<lparr> s_json = j, s_option = createOptionItem a (getProp (j_meta j) ''name'') \<rparr>"
  by (simp add: entry_def obs_add_def update_conv')

lemma entry_obs_add_other: "b \<noteq> a \<Longrightarrow> entry (obs_add a j cur) b = entry cur b"
  by (simp add: entry_def obs_add_def update_conv')

lemma map_of_fold_update:
  "map_of (fold (\<lambda>key jm. AList.update key (f key) jm) ks old) k =
     (if k \<in> set ks then Some (f k) else map_of old k)"
  by (induction ks arbitrary: old) (auto simp: update_conv')

section \<open>saveRecent\<close>

text \<open>
  C3. \<^verbatim>\<open>saveRecent(address)\<close> never overwrites an existing entry: when the address store
  holds an entry for the address, the state is unchanged and that entry is returned; when
  it holds none, the entry of \<open>recentJson\<close> (isRecent = true, whenCreated = now) is added
  and returned. A second call right after the first, at any later time, returns the same
  entry and leaves the state of the first call, so whenCreated is unchanged.
\<close>

theorem saveRecent_never_overwrites:
  "(\<forall>e. entry (addresses st) a = Some e \<longrightarrow> saveRecent st a now = (st, Some e)) \<and>
   (entry (addresses st) a = None \<longrightarrow>
      (\<exists>e. saveRecent st a now =
              (st\<lparr> addresses := obs_add a (recentJson a now) (addresses st) \<rparr>, Some e) \<and>
           entry (addresses (fst (saveRecent st a now))) a = Some e \<and>
           s_json e = recentJson a now \<and>
           getProp (j_meta (s_json e)) ''isRecent'' = JBool True \<and>
           getProp (j_meta (s_json e)) ''whenCreated'' = JNum now)) \<and>
   (\<exists>e. snd (saveRecent st a now) = Some e \<and>
        saveRecent (fst (saveRecent st a now)) a now' = (fst (saveRecent st a now), Some e))"
proof -
  have present: "saveRecent st a now = (st, Some e)" if "entry (addresses st) a = Some e" for e
    using that by (simp add: saveRecent_def)
  have absent: "saveRecent st a now =
      (st\<lparr> addresses := obs_add a (recentJson a now) (addresses st) \<rparr>,
       Some \<lparr> s_json = recentJson a now,
              s_option = createOptionItem a (getProp (j_meta (recentJson a now)) ''name'') \<rparr>)"
    if "entry (addresses st) a = None"
    using that by (simp add: saveRecent_def entry_obs_add_same)
  have stored: "\<exists>e. snd (saveRecent st a now) = Some e \<and>
                    entry (addresses (fst (saveRecent st a now))) a = Some e"
  proof (cases "entry (addresses st) a")
    case None
    then show ?thesis by (simp add: absent entry_obs_add_same)
  next
    case (Some e)
    then show ?thesis by (simp add: present)
  qed
  then obtain e where e: "snd (saveRecent st a now) = Some e"
    "entry (addresses (fst (saveRecent st a now))) a = Some e" by blast
  have again: "saveRecent (fst (saveRecent st a now)) a now' = (fst (saveRecent st a now), Some e)"
    using e(2) by (simp add: saveRecent_def)
  show ?thesis
  proof (intro conjI allI impI)
    fix e' assume "entry (addresses st) a = Some e'"
    then show "saveRecent st a now = (st, Some e')" by (rule present)
  next
    assume n: "entry (addresses st) a = None"
    show "\<exists>e. saveRecent st a now =
                (st\<lparr> addresses := obs_add a (recentJson a now) (addresses st) \<rparr>, Some e) \<and>
           entry (addresses (fst (saveRecent st a now))) a = Some e \<and>
           s_json e = recentJson a now \<and>
           getProp (j_meta (s_json e)) ''isRecent'' = JBool True \<and>
           getProp (j_meta (s_json e)) ''whenCreated'' = JNum now"
      by (simp add: absent[OF n] entry_obs_add_same) (simp add: recentJson_def getProp_def)
  next
    show "\<exists>e. snd (saveRecent st a now) = Some e \<and>
        saveRecent (fst (saveRecent st a now)) a now' = (fst (saveRecent st a now), Some e)"
      using e(1) again by blast
  qed
qed

theorem saveRecent_never_overwrites_witness:
  "entry (addresses emptyState) ''5Alice'' = None \<and>
   saveRecent emptyState ''5Alice'' 1000 = (recentState, Some aliceRecent) \<and>
   entry (addresses recentState) ''5Alice'' = Some aliceRecent \<and>
   saveRecent recentState ''5Alice'' 2000 = (recentState, Some aliceRecent) \<and>
   getProp (j_meta (s_json aliceRecent)) ''whenCreated'' = JNum 1000"
  using saveRecent_never_overwrites [of recentState "''5Alice''" 2000 2000]
        saveRecent_never_overwrites [of emptyState "''5Alice''" 1000 2000]
  by (simp add: entry_def recentState_def emptyState_def aliceRecent_def saveRecent_def
                obs_add_def createOptionItem_def recentJson_def getProp_def Let_def)

section \<open>saveAddressMeta\<close>

lemma saveAddressMeta_entry:
  "\<exists>e. entry (addresses (saveAddressMeta st a m now)) a = Some e \<and>
        j_meta (s_json e) =
          AList.delete ''isRecent''
            (fold (\<lambda>key jm. AList.update key (getProp m key) jm) (map fst m)
               (case entry (addresses st) a of
                  Some old \<Rightarrow> j_meta (s_json old)
                | None \<Rightarrow> [(''isRecent'', JUndefined), (''whenCreated'', JNum now)])) \<and>
        j_address (s_json e) =
          (case entry (addresses st) a of Some old \<Rightarrow> j_address (s_json old) | None \<Rightarrow> a)"
  by (cases "entry (addresses st) a")
     (simp_all add: saveAddressMeta_def Let_def entry_obs_add_same)

text \<open>
  C4. \<^verbatim>\<open>saveAddressMeta(address, meta)\<close> stores an entry for the address whose metadata
  is the merge, field by field, of the supplied metadata into the metadata of the existing
  entry: a supplied field has the supplied value, any other field keeps its old value. With
  no existing entry the old metadata is whenCreated = now alone. The stored entry never
  carries the isRecent key, whatever the prior entry or the supplied metadata held. The
  account store, the registry and the entries of other addresses are untouched.
\<close>

theorem saveAddressMeta_merges:
  "\<exists>e. entry (addresses (saveAddressMeta st a m now)) a = Some e \<and>
        map_of (j_meta (s_json e)) ''isRecent'' = None \<and>
        getProp (j_meta (s_json e)) ''isRecent'' = JUndefined \<and>
        (\<forall>k. k \<noteq> ''isRecent'' \<longrightarrow>
           map_of (j_meta (s_json e)) k =
             (if k \<in> fst ` set m then Some (getProp m k)
              else (case entry (addresses st) a of
                      Some old \<Rightarrow> map_of (j_meta (s_json old)) k
                    | None \<Rightarrow> (if k = ''whenCreated'' then Some (JNum now) else None)))) \<and>
        (entry (addresses st) a = None \<longrightarrow> j_address (s_json e) = a) \<and>
        accounts (saveAddressMeta st a m now) = accounts st \<and>
        keyring (saveAddressMeta st a m now) = keyring st \<and>
        (\<forall>b. b \<noteq> a \<longrightarrow> entry (addresses (saveAddressMeta st a m now)) b = entry (addresses st) b)"
proof -
  let ?old = "case entry (addresses st) a of
                Some e \<Rightarrow> j_meta (s_json e)
              | None \<Rightarrow> [(''isRecent'', JUndefined), (''whenCreated'', JNum now)]"
  obtain e where e: "entry (addresses (saveAddressMeta st a m now)) a = Some e"
    and meta_e: "j_meta (s_json e) =
       AList.delete ''isRecent''
         (fold (\<lambda>key jm. AList.update key (getProp m key) jm) (map fst m) ?old)"
    and addr_e: "j_address (s_json e) =
          (case entry (addresses st) a of Some old \<Rightarrow> j_address (s_json old) | None \<Rightarrow> a)"
    using saveAddressMeta_entry by blast
  have absent: "map_of (j_meta (s_json e)) ''isRecent'' = None"
    by (simp add: meta_e delete_conv')
  have merged: "map_of (j_meta (s_json e)) k =
             (if k \<in> fst ` set m then Some (getProp m k)
              else (case entry (addresses st) a of
                      Some old \<Rightarrow> map_of (j_meta (s_json old)) k
                    | None \<Rightarrow> (if k = ''whenCreated'' then Some (JNum now) else None)))"
    if "k \<noteq> ''isRecent''" for k
    using that
    by (cases "entry (addresses st) a") (simp_all add: meta_e delete_conv' map_of_fold_update)
  have frame: "accounts (saveAddressMeta st a m now) = accounts st"
    "keyring (saveAddressMeta st a m now) = keyring st"
    by (simp_all add: saveAddressMeta_def Let_def)
  have others: "entry (addresses (saveAddressMeta st a m now)) b = entry (addresses st) b"
    if "b \<noteq> a" for b
    using that by (simp add: saveAddressMeta_def Let_def entry_obs_add_other)
  from e absent merged addr_e frame others show ?thesis
    by (simp add: getProp_def)
qed

theorem saveAddressMeta_merges_witness:
  "entry (addresses recentState) ''5Alice'' = Some aliceRecent \<and>
   getProp (j_meta (s_json aliceRecent)) ''isRecent'' = JBool True \<and>
   addresses (saveAddressMeta recentState ''5Alice'' [(''name'', JStr ''alice'')] 3000) =
     [(''5Alice'',
       \<lparr> s_json = \<lparr> j_address = ''5Alice'', j_encoded = JUndefined,
                    j_meta = [(''whenCreated'', JNum 1000), (''name'', JStr ''alice'')] \<rparr>,
         s_option = \<lparr> o_className = None, o_name = ''alice'', o_key = ''5Alice'',
                      o_text = ''alice'', o_value = Some ''5Alice'' \<rparr> \<rparr>)] \<and>
   entry (addresses emptyState) ''5Bob'' = None \<and>
   addresses (saveAddressMeta emptyState ''5Bob'' [(''foo'', JNum 1)] 3000) =
     [(''5Bob'',
       \<lparr> s_json = \<lparr> j_address = ''5Bob'', j_encoded = JUndefined,
                    j_meta = [(''whenCreated'', JNum 3000), (''foo'', JNum 1)] \<rparr>,
         s_option = \<lparr> o_className = None, o_name = ''5Bob'', o_key = ''5Bob'',
                      o_text = ''5Bob'', o_value = Some ''5Bob'' \<rparr> \<rparr>)]"
  using saveAddressMeta_merges [of recentState "''5Alice''" "[(''name'', JStr ''alice'')]" 3000]
        saveAddressMeta_merges [of emptyState "''5Bob''" "[(''foo'', JNum 1)]" 3000]
  by (simp add: entry_def recentState_def emptyState_def aliceRecent_def saveAddressMeta_def
                obs_add_def createOptionItem_def recentJson_def getProp_def Let_def)

section \<open>Address handles\<close>

text \<open>
  C10. \<^verbatim>\<open>getAddress(address, type)\<close> returns a handle whenever the address decodes,
  whether or not a store holds it; the handle keeps the address, the public key and the
  type. A handle of type account reads the account store and a handle of type address
  reads the address store: when that store holds an entry for the handle's address,
  \<^verbatim>\<open>isValid()\<close> is true and \<^verbatim>\<open>getMeta()\<close> returns the entry's metadata; when it
  holds none, \<^verbatim>\<open>isValid()\<close> is false and \<^verbatim>\<open>getMeta()\<close> throws the TypeError of the
  unguarded dereference, whatever the other store holds.
\<close>

theorem getAddress_getMeta_total_on_present:
  "(decodeAddress x (toAddress x a) = None \<longrightarrow> getAddress x a ty = Inl InvalidAddress) \<and>
   (\<forall>pk. decodeAddress x (toAddress x a) = Some pk \<longrightarrow>
      getAddress x a ty =
        Inr \<lparr> ka_address = toAddress x a, ka_publicKey = pk, ka_type = ty \<rparr>) \<and>
   (\<forall>e. entry (accounts st) s = Some e \<longrightarrow>
      isValid st \<lparr> ka_address = s, ka_publicKey = k, ka_type = Account \<rparr> \<and>
      getMeta st \<lparr> ka_address = s, ka_publicKey = k, ka_type = Account \<rparr> =
        Inr (j_meta (s_json e))) \<and>
   (entry (accounts st) s = None \<longrightarrow>
      \<not> isValid st \<lparr> ka_address = s, ka_publicKey = k, ka_type = Account \<rparr> \<and>
      getMeta st \<lparr> ka_address = s, ka_publicKey = k, ka_type = Account \<rparr> = Inl TypeError) \<and>
   (\<forall>e. entry (addresses st) s = Some e \<longrightarrow>
      isValid st \<lparr> ka_address = s, ka_publicKey = k, ka_type = Address \<rparr> \<and>
      getMeta st \<lparr> ka_address = s, ka_publicKey = k, ka_type = Address \<rparr> =
        Inr (j_meta (s_json e))) \<and>
   (entry (addresses st) s = None \<longrightarrow>
      \<not> isValid st \<lparr> ka_address = s, ka_publicKey = k, ka_type = Address \<rparr> \<and>
      getMeta st \<lparr> ka_address = s, ka_publicKey = k, ka_type = Address \<rparr> = Inl TypeError)"
  by (simp add: getAddress_def isValid_def getMeta_def subject_def)

theorem getAddress_getMeta_total_on_present_witness:
  "getAddress sampleExt (AString ''5Bob'') Account =
     Inr \<lparr> ka_address = ''5Bob'', ka_publicKey = [2], ka_type = Account \<rparr> \<and>
   entry (accounts accountsState) ''5Bob'' \<noteq> None \<and>
   entry (addresses accountsState) ''5Bob'' = None \<and>
   isValid accountsState \<lparr> ka_address = ''5Bob'', ka_publicKey = [2], ka_type = Account \<rparr> \<and>
   getMeta accountsState \<lparr> ka_address = ''5Bob'', ka_publicKey = [2], ka_type = Account \<rparr> =
     Inr [(''isTesting'', JBool True)] \<and>
   \<not> isValid accountsState \<lparr> ka_address = ''5Bob'', ka_publicKey = [2], ka_type = Address \<rparr> \<and>
   getMeta accountsState \<lparr> ka_address = ''5Bob'', ka_publicKey = [2], ka_type = Address \<rparr> =
     Inl TypeError \<and>
   getAddress sampleExt (ABytes [1]) Address =
     Inr \<lparr> ka_address = ''5Alice'', ka_publicKey = [1], ka_type = Address \<rparr> \<and>
   entry (accounts recentState) ''5Alice'' = None \<and>
   entry (addresses recentState) ''5Alice'' = Some aliceRecent \<and>
   \<not> isValid recentState \<lparr> ka_address = ''5Alice'', ka_publicKey = [1], ka_type = Account \<rparr> \<and>
   getMeta recentState \<lparr> ka_address = ''5Alice'', ka_publicKey = [1], ka_type = Account \<rparr> =
     Inl TypeError \<and>
   isValid recentState \<lparr> ka_address = ''5Alice'', ka_publicKey = [1], ka_type = Address \<rparr> \<and>
   getMeta recentState \<lparr> ka_address = ''5Alice'', ka_publicKey = [1], ka_type = Address \<rparr> =
     Inr [(''isRecent'', JBool True), (''whenCreated'', JNum 1000)] \<and>
   getAddress sampleExt (AString ''nobody'') Account = Inl InvalidAddress"
  using getAddress_getMeta_total_on_present
          [of sampleExt "AString ''5Bob''" Account accountsState "''5Bob''" "[2]"]
        getAddress_getMeta_total_on_present
          [of sampleExt "ABytes [1]" Address recentState "''5Alice''" "[1]"]
        getAddress_getMeta_total_on_present
          [of sampleExt "AString ''nobody''" Account accountsState "''5Bob''" "[2]"]
  by (simp add: sampleExt_def toAddress_def accountsState_def recentState_def entry_def
                aliceRecent_def recentJson_def getAddress_def isValid_def getMeta_def
                subject_def obs_add_def bobJson_def aliceJson_def)

section \<open>Filtering of accounts and pairs\<close>

lemma filterE_Inr: "filterE f hs = Inr r \<Longrightarrow> h \<in> set r \<Longrightarrow> f h = Inr True"
proof (induction hs arbitrary: r)
  case Nil
  then show ?case by simp
next
  case (Cons a hs)
  then show ?case
    by (auto split: sum.splits if_splits)
qed

lemma filterE_total: "(\<And>h. h \<in> set hs \<Longrightarrow> f h = Inr (g h)) \<Longrightarrow> filterE f hs = Inr (filter g hs)"
  by (induction hs) auto

lemma mapE_total: "(\<And>a. a \<in> set as \<Longrightarrow> f a = Inr (g a)) \<Longrightarrow> mapE f as = Inr (map g as)"
  by (induction as) auto

lemma entry_Some_iff: "(\<exists>e. entry cur a = Some e) = (a \<in> fst ` set cur)"
proof -
  have "(map_of cur a \<noteq> None) = (a \<in> fst ` set cur)"
    by (simp add: map_of_eq_None_iff)
  then show ?thesis by (simp add: entry_def)
qed

text \<open>
  C5. Every handle \<^verbatim>\<open>getAccounts()\<close> returns has metadata whose isTesting is falsy, so
  never true; when every key of the account store decodes, it returns the handles of
  exactly the keys whose entry is not flagged, in store order. \<^verbatim>\<open>getPairs()\<close> is the
  whole registry when development mode is on, and the registry without the pairs whose
  isTesting is true when it is off.
\<close>

theorem getAccounts_getPairs_filtering:
  "(\<forall>hs. getAccounts x st = Inr hs \<longrightarrow>
      (\<forall>h \<in> set hs. \<exists>m. getMeta st h = Inr m \<and> \<not> truthy (getProp m ''isTesting'') \<and>
                          getProp m ''isTesting'' \<noteq> JBool True)) \<and>
   ((\<forall>a \<in> fst ` set (accounts st). decodeAddress x a \<noteq> None) \<longrightarrow>
      (\<exists>hs. getAccounts x st = Inr hs \<and>
            map ka_address hs =
              filter (\<lambda>a. \<exists>e. entry (accounts st) a = Some e \<and>
                              \<not> truthy (getProp (j_meta (s_json e)) ''isTesting''))
                     (map fst (accounts st)))) \<and>
   getPairs True st = getPairs_reg (keyring st) \<and>
   getPairs False st =
     filter (\<lambda>p. getProp (p_meta p) ''isTesting'' \<noteq> JBool True) (getPairs_reg (keyring st))"
proof (intro conjI allI impI ballI)
  fix hs h
  assume ok: "getAccounts x st = Inr hs" and h: "h \<in> set hs"
  from ok obtain hs0 where
    "filterE (\<lambda>account. case getMeta st account of
                          Inl e \<Rightarrow> Inl e
                        | Inr m \<Rightarrow> Inr (\<not> truthy (getProp m ''isTesting''))) hs0 = Inr hs"
    by (auto simp: getAccounts_def Let_def split: sum.splits)
  from filterE_Inr [OF this h]
  obtain m where m: "getMeta st h = Inr m" "\<not> truthy (getProp m ''isTesting'')"
    by (auto split: sum.splits)
  then have "getProp m ''isTesting'' \<noteq> JBool True" by auto
  with m show "\<exists>m. getMeta st h = Inr m \<and> \<not> truthy (getProp m ''isTesting'') \<and>
                   getProp m ''isTesting'' \<noteq> JBool True"
    by blast
next
  assume dec: "\<forall>a \<in> fst ` set (accounts st). decodeAddress x a \<noteq> None"
  let ?mk = "\<lambda>a. \<lparr> ka_address = a, ka_publicKey = the (decodeAddress x a), ka_type = Account \<rparr>"
  let ?keep = "\<lambda>h. \<exists>e. entry (accounts st) (ka_address h) = Some e \<and>
                       \<not> truthy (getProp (j_meta (s_json e)) ''isTesting'')"
  have handles: "mapE (\<lambda>a. getAddress x (AString a) Account) (map fst (accounts st)) =
                   Inr (map ?mk (map fst (accounts st)))"
  proof (rule mapE_total)
    fix a assume "a \<in> set (map fst (accounts st))"
    with dec obtain pk where "decodeAddress x a = Some pk" by auto
    then show "getAddress x (AString a) Account = Inr (?mk a)"
      by (simp add: getAddress_def toAddress_def)
  qed
  have kept: "filterE (\<lambda>account. case getMeta st account of
                          Inl e \<Rightarrow> Inl e
                        | Inr m \<Rightarrow> Inr (\<not> truthy (getProp m ''isTesting'')))
                (map ?mk (map fst (accounts st))) =
              Inr (filter ?keep (map ?mk (map fst (accounts st))))"
  proof (rule filterE_total)
    fix h assume "h \<in> set (map ?mk (map fst (accounts st)))"
    then obtain a where a: "a \<in> fst ` set (accounts st)" and h: "h = ?mk a" by auto
    from a obtain e where "entry (accounts st) a = Some e"
      using entry_Some_iff by blast
    then show "(case getMeta st h of
                  Inl e \<Rightarrow> Inl e
                | Inr m \<Rightarrow> Inr (\<not> truthy (getProp m ''isTesting''))) = Inr (?keep h)"
      by (simp add: h getMeta_def subject_def)
  qed
  have "map ka_address (filter ?keep (map ?mk (map fst (accounts st)))) =
          filter (\<lambda>a. \<exists>e. entry (accounts st) a = Some e \<and>
                          \<not> truthy (getProp (j_meta (s_json e)) ''isTesting''))
                 (map fst (accounts st))"
    by (simp add: filter_map comp_def)
  with handles kept
  show "\<exists>hs. getAccounts x st = Inr hs \<and>
            map ka_address hs =
              filter (\<lambda>a. \<exists>e. entry (accounts st) a = Some e \<and>
                              \<not> truthy (getProp (j_meta (s_json e)) ''isTesting''))
                     (map fst (accounts st))"
    by (simp add: getAccounts_def Let_def)
next
  show "getPairs True st = getPairs_reg (keyring st)"
    by (simp add: getPairs_def)
next
  show "getPairs False st =
     filter (\<lambda>p. getProp (p_meta p) ''isTesting'' \<noteq> JBool True) (getPairs_reg (keyring st))"
    by (simp add: getPairs_def)
qed

theorem getAccounts_getPairs_filtering_witness:
  "getAccounts sampleExt accountsState =
     Inr [\<lparr> ka_address = ''5Alice'', ka_publicKey = [1], ka_type = Account \<rparr>] \<and>
   getMeta accountsState \<lparr> ka_address = ''5Alice'', ka_publicKey = [1], ka_type = Account \<rparr> =
     Inr [(''name'', JStr ''alice'')] \<and>
   getMeta accountsState \<lparr> ka_address = ''5Bob'', ka_publicKey = [2], ka_type = Account \<rparr> =
     Inr [(''isTesting'', JBool True)] \<and>
   getPairs False accountsState = [alicePair] \<and>
   getPairs True accountsState = [alicePair, bobPair]"
  using getAccounts_getPairs_filtering [of sampleExt accountsState]
  by (simp add: getAccounts_def getAddress_def toAddress_def getMeta_def subject_def
                accountsState_def sampleExt_def obs_add_def entry_def aliceJson_def bobJson_def
                getProp_def getPairs_def getPairs_reg_def alicePair_def bobPair_def Let_def)

section \<open>backupAccount\<close>

text \<open>
  C8. \<^verbatim>\<open>backupAccount(pair, password)\<close> decodes with the pair locked: the call behaves as
  \<^verbatim>\<open>decodePkcs8\<close> on the locked pair, whatever secret key the pair held. When the password
  does not decode the pair's encrypted material the call throws WrongPassword (and leaves
  the pair locked); when it decodes, the call returns the export of the decoded pair and
  the pair ends unlocked.
\<close>

theorem backupAccount_locks_then_decodes:
  "isLocked (lock p) \<and>
   backupAccount x p password =
     (case decodePkcs8 x password (lock p) of
        Inl e \<Rightarrow> (lock p, Inl e)
      | Inr p2 \<Rightarrow> (p2, Inr (toJson x (Some password) p2))) \<and>
   (pkcs8Decode x password (p_encoded p) = None \<longrightarrow>
      backupAccount x p password = (lock p, Inl WrongPassword)) \<and>
   (\<forall>sk. pkcs8Decode x password (p_encoded p) = Some sk \<longrightarrow>
      backupAccount x p password =
        (p\<lparr> p_secretKey := Some sk \<rparr>,
         Inr (toJson x (Some password) (p\<lparr> p_secretKey := Some sk \<rparr>))) \<and>
      \<not> isLocked (fst (backupAccount x p password)))"
proof -
  have locked: "(if \<not> isLocked p then lock p else p) = lock p"
    by (simp add: isLocked_def lock_def)
  have form: "backupAccount x p password =
     (case decodePkcs8 x password (lock p) of
        Inl e \<Rightarrow> (lock p, Inl e)
      | Inr p2 \<Rightarrow> (p2, Inr (toJson x (Some password) p2)))"
    unfolding backupAccount_def locked by (simp add: Let_def)
  have wrong: "backupAccount x p password = (lock p, Inl WrongPassword)"
    if "pkcs8Decode x password (p_encoded p) = None"
    using that by (simp add: form decodePkcs8_def lock_def)
  have right: "backupAccount x p password =
        (p\<lparr> p_secretKey := Some sk \<rparr>,
         Inr (toJson x (Some password) (p\<lparr> p_secretKey := Some sk \<rparr>)))"
    if "pkcs8Decode x password (p_encoded p) = Some sk" for sk
    using that by (simp add: form decodePkcs8_def lock_def)
  have "isLocked (lock p)" by (simp add: isLocked_def lock_def)
  with form wrong right show ?thesis by (simp add: isLocked_def)
qed

theorem backupAccount_locks_then_decodes_witness:
  "pkcs8Decode sampleExt ''guess'' (p_encoded alicePair) = None \<and>
   \<not> isLocked alicePair \<and>
   backupAccount sampleExt alicePair ''guess'' = (lock alicePair, Inl WrongPassword) \<and>
   pkcs8Decode sampleExt ''pw'' (p_encoded bobPair) = Some [7] \<and>
   isLocked bobPair \<and>
   backupAccount sampleExt bobPair ''pw'' =
     (bobPair\<lparr> p_secretKey := Some [7] \<rparr>,
      Inr \<lparr> j_address = ''5Bob'', j_encoded = JStr ''0xencoded'',
            j_meta = [(''isTesting'', JBool True)] \<rparr>) \<and>
   \<not> isLocked (fst (backupAccount sampleExt bobPair ''pw''))"
  using backupAccount_locks_then_decodes [of alicePair sampleExt "''guess''"]
        backupAccount_locks_then_decodes [of bobPair sampleExt "''pw''"]
  by (simp add: sampleExt_def alicePair_def bobPair_def isLocked_def toJson_def address_def
                backupAccount_def decodePkcs8_def lock_def Let_def)

section \<open>isAvailable\<close>

lemma saveAccount_Inr:
  "snd (saveAccount x st p password now) = Inr st' \<Longrightarrow>
     \<exists>kr. st' = st\<lparr> keyring := kr,
                   accounts := obs_add (address x p)
                     \<lparr> j_address = address x p,
                       j_encoded = pkcs8Encode x password (p_secretKey p),
                       j_meta = (if \<not> truthy (getProp (p_meta p) ''whenCreated'')
                                 then AList.update ''whenCreated'' (JNum now) (p_meta p)
                                 else p_meta p) \<rparr>
                     (accounts st) \<rparr>"
  by (cases "truthy (getProp (p_meta p) ''whenCreated'')")
     (auto simp: saveAccount_def Let_def toJson_def split: sum.splits if_splits)

text \<open>
  C7. \<^verbatim>\<open>isAvailable(address)\<close> is true exactly when neither store holds an entry for the
  address. It is true while both stores are empty, it stays true across a save that names
  another address, and it is false right after \<^verbatim>\<open>saveAccount\<close> of a pair with that
  address (when the save returns), after \<^verbatim>\<open>saveAddressMeta\<close> and after
  \<^verbatim>\<open>saveRecent\<close> for that address.
\<close>

theorem isAvailable_iff_in_neither_store:
  "isAvailable x st a =
     (entry (accounts st) (toAddress x a) = None \<and> entry (addresses st) (toAddress x a) = None) \<and>
   (accounts st = [] \<and> addresses st = [] \<longrightarrow> isAvailable x st a) \<and>
   (\<forall>st'. snd (saveAccount x st p password now) = Inr st' \<longrightarrow>
      \<not> isAvailable x st' (AString (address x p)) \<and>
      (toAddress x a \<noteq> address x p \<longrightarrow> isAvailable x st' a = isAvailable x st a)) \<and>
   \<not> isAvailable x (saveAddressMeta st s m now) (AString s) \<and>
   (toAddress x a \<noteq> s \<longrightarrow>
      isAvailable x (saveAddressMeta st s m now) a = isAvailable x st a) \<and>
   \<not> isAvailable x (fst (saveRecent st s now)) (AString s) \<and>
   (toAddress x a \<noteq> s \<longrightarrow>
      isAvailable x (fst (saveRecent st s now)) a = isAvailable x st a)"
proof -
  have iff: "isAvailable x st a =
     (entry (accounts st) (toAddress x a) = None \<and> entry (addresses st) (toAddress x a) = None)"
    for st a
    by (simp add: isAvailable_def Let_def)
  have empty: "isAvailable x st a" if "accounts st = []" "addresses st = []"
    using that by (simp add: iff entry_def)
  have account: "\<not> isAvailable x st' (AString (address x p)) \<and>
      (toAddress x a \<noteq> address x p \<longrightarrow> isAvailable x st' a = isAvailable x st a)"
    if "snd (saveAccount x st p password now) = Inr st'" for st'
  proof -
    from saveAccount_Inr [OF that] obtain json kr where
      st': "st' = st\<lparr> keyring := kr, accounts := obs_add (address x p) json (accounts st) \<rparr>"
      by metis
    show ?thesis
      by (simp add: iff st' toAddress_def entry_obs_add_same entry_obs_add_other)
  qed
  have addrMeta: "\<not> isAvailable x (saveAddressMeta st s m now) (AString s)"
    using saveAddressMeta_entry [of st s m now] by (auto simp: iff toAddress_def)
  have addrMeta_other: "isAvailable x (saveAddressMeta st s m now) a = isAvailable x st a"
    if "toAddress x a \<noteq> s"
    using that by (simp add: iff saveAddressMeta_def Let_def entry_obs_add_other)
  have recent: "\<not> isAvailable x (fst (saveRecent st s now)) (AString s)"
    by (auto simp: iff toAddress_def saveRecent_def Let_def entry_obs_add_same)
  have recent_other: "isAvailable x (fst (saveRecent st s now)) a = isAvailable x st a"
    if "toAddress x a \<noteq> s"
    using that by (simp add: iff saveRecent_def Let_def entry_obs_add_other)
  from iff empty account addrMeta addrMeta_other recent recent_other
  show ?thesis by blast
qed

theorem isAvailable_iff_in_neither_store_witness:
  "isAvailable sampleExt emptyState (AString ''5Alice'') \<and>
   (case snd (saveAccount sampleExt emptyState alicePair (Some ''pw'') 1000) of
      Inl e \<Rightarrow> False
    | Inr st' \<Rightarrow> \<not> isAvailable sampleExt st' (AString ''5Alice'') \<and>
                 isAvailable sampleExt st' (AString ''5Bob'')) \<and>
   \<not> isAvailable sampleExt (saveAddressMeta emptyState ''5Bob'' [] 1000) (ABytes [2]) \<and>
   isAvailable sampleExt (saveAddressMeta emptyState ''5Bob'' [] 1000) (ABytes [1]) \<and>
   \<not> isAvailable sampleExt (fst (saveRecent emptyState ''5Alice'' 1000)) (AString ''5Alice'') \<and>
   isAvailable sampleExt (fst (saveRecent emptyState ''5Alice'' 1000)) (AString ''5Bob'')"
  using isAvailable_iff_in_neither_store
          [of sampleExt emptyState "AString ''5Bob''" alicePair "Some ''pw''" 1000 "''5Alice''" "[]"]
  by (simp add: isAvailable_def toAddress_def sampleExt_def emptyState_def alicePair_def
                saveAccount_def toJson_def address_def addFromJson_def addPair_reg_def
                saveAddressMeta_def saveRecent_def recentJson_def obs_add_def entry_def
                getProp_def isLocked_def Let_def)

section \<open>saveAccount\<close>

lemma getProp_update:
  "getProp (AList.update k v m) k' = (if k' = k then v else getProp m k')"
  by (simp add: getProp_def update_conv')

lemma saveAccount_succeeds:
  "\<not> isLocked p \<Longrightarrow> decodeAddress x (address x p) = Some pk \<Longrightarrow>
     saveAccount x st p password now =
       (p\<lparr> p_meta := (if \<not> truthy (getProp (p_meta p) ''whenCreated'')
                        then AList.update ''whenCreated'' (JNum now) (p_meta p)
                        else p_meta p) \<rparr>,
        Inr (st\<lparr> keyring :=
                  addPair_reg
                    \<lparr> p_publicKey = pk, p_secretKey = None,
                      p_meta = (if \<not> truthy (getProp (p_meta p) ''whenCreated'')
                                then AList.update ''whenCreated'' (JNum now) (p_meta p)
                                else p_meta p),
                      p_encoded = pkcs8Encode x password (p_secretKey p) \<rparr>
                    (keyring st),
                accounts := obs_add (address x p)
                     \<lparr> j_address = address x p,
                       j_encoded = pkcs8Encode x password (p_secretKey p),
                       j_meta = (if \<not> truthy (getProp (p_meta p) ''whenCreated'')
                                 then AList.update ''whenCreated'' (JNum now) (p_meta p)
                                 else p_meta p) \<rparr>
                     (accounts st) \<rparr>))"
  by (cases "truthy (getProp (p_meta p) ''whenCreated'')")
     (simp_all add: saveAccount_def Let_def toJson_def addFromJson_def)

text \<open>
  C9. \<^verbatim>\<open>saveAccount(pair, password?)\<close>, for an unlocked pair whose address decodes to
  its public key and at a clock reading other than 0, returns and stores an account entry
  whose whenCreated is the reading when the pair's metadata had none (or a falsy one), and
  the pair's own value otherwise; the pair leaves the call with that whenCreated in its
  metadata. Saving the same pair again, as the first call left it, at any later time and
  with any password, returns and leaves whenCreated in the account store entry as the
  first save set it.
\<close>

theorem saveAccount_keeps_whenCreated:
  assumes codec: "decodeAddress x (address x p) = Some (p_publicKey p)"
      and clock: "now \<noteq> 0"
      and unlocked: "\<not> isLocked p"
  shows "\<exists>p1 st1 e1 p2 st2 e2.
           saveAccount x st p password now = (p1, Inr st1) \<and>
           entry (accounts st1) (address x p) = Some e1 \<and>
           (\<not> truthy (getProp (p_meta p) ''whenCreated'') \<longrightarrow>
              getProp (j_meta (s_json e1)) ''whenCreated'' = JNum now) \<and>
           (truthy (getProp (p_meta p) ''whenCreated'') \<longrightarrow>
              getProp (j_meta (s_json e1)) ''whenCreated'' = getProp (p_meta p) ''whenCreated'') \<and>
           getProp (p_meta p1) ''whenCreated'' = getProp (j_meta (s_json e1)) ''whenCreated'' \<and>
           p1 = p\<lparr> p_meta := p_meta p1 \<rparr> \<and>
           saveAccount x st1 p1 password' now' = (p2, Inr st2) \<and>
           entry (accounts st2) (address x p) = Some e2 \<and>
           getProp (j_meta (s_json e2)) ''whenCreated'' =
             getProp (j_meta (s_json e1)) ''whenCreated'' \<and>
           p2 = p1"
proof -
  let ?m = "if \<not> truthy (getProp (p_meta p) ''whenCreated'')
            then AList.update ''whenCreated'' (JNum now) (p_meta p) else p_meta p"
  let ?p1 = "p\<lparr> p_meta := ?m \<rparr>"
  let ?json = "\<lambda>pw. \<lparr> j_address = address x p,
                        j_encoded = pkcs8Encode x pw (p_secretKey p), j_meta = ?m \<rparr>"
  let ?reg = "\<lambda>pw. \<lparr> p_publicKey = p_publicKey p, p_secretKey = None, p_meta = ?m,
                       p_encoded = pkcs8Encode x pw (p_secretKey p) \<rparr>"
  let ?st1 = "st\<lparr> keyring := addPair_reg (?reg password) (keyring st),
                  accounts := obs_add (address x p) (?json password) (accounts st) \<rparr>"
  let ?st2 = "?st1\<lparr> keyring := addPair_reg (?reg password') (keyring ?st1),
                    accounts := obs_add (address x p) (?json password') (accounts ?st1) \<rparr>"
  let ?e = "\<lambda>pw. \<lparr> s_json = ?json pw,
                     s_option = createOptionItem (address x p) (getProp ?m ''name'') \<rparr>"
  have first: "saveAccount x st p password now = (?p1, Inr ?st1)"
    by (rule saveAccount_succeeds [OF unlocked codec])
  have stamped: "truthy (getProp ?m ''whenCreated'')"
    using clock by (simp add: getProp_update)
  have same: "address x ?p1 = address x p" "p_publicKey ?p1 = p_publicKey p"
    "p_secretKey ?p1 = p_secretKey p"
    by (simp_all add: address_def)
  have unlocked1: "\<not> isLocked ?p1"
    using unlocked by (simp add: isLocked_def)
  have codec1: "decodeAddress x (address x ?p1) = Some (p_publicKey p)"
    using codec by (simp add: same)
  have keep: "(if \<not> truthy (getProp (p_meta ?p1) ''whenCreated'')
               then AList.update ''whenCreated'' (JNum now') (p_meta ?p1) else p_meta ?p1) = ?m"
    using stamped by simp
  have second: "saveAccount x ?st1 ?p1 password' now' = (?p1, Inr ?st2)"
    unfolding saveAccount_succeeds [OF unlocked1 codec1] keep same by simp
  have e1: "entry (accounts ?st1) (address x p) = Some (?e password)"
    by (simp add: entry_obs_add_same)
  have e2: "entry (accounts ?st2) (address x p) = Some (?e password')"
    by (simp add: entry_obs_add_same)
  have absent: "\<not> truthy (getProp (p_meta p) ''whenCreated'') \<longrightarrow>
                  getProp (j_meta (s_json (?e password))) ''whenCreated'' = JNum now"
    by (simp add: getProp_update)
  have present: "truthy (getProp (p_meta p) ''whenCreated'') \<longrightarrow>
                  getProp (j_meta (s_json (?e password))) ''whenCreated'' =
                    getProp (p_meta p) ''whenCreated''"
    by simp
  have pair_stamped: "getProp (p_meta ?p1) ''whenCreated'' =
                        getProp (j_meta (s_json (?e password))) ''whenCreated''"
    by simp
  have pair_same: "?p1 = p\<lparr> p_meta := p_meta ?p1 \<rparr>" by simp
  have unchanged: "getProp (j_meta (s_json (?e password'))) ''whenCreated'' =
                     getProp (j_meta (s_json (?e password))) ''whenCreated''"
    by simp
  show ?thesis
    apply (rule exI [of _ ?p1])
    apply (rule exI [of _ ?st1])
    apply (rule exI [of _ "?e password"])
    apply (rule exI [of _ ?p1])
    apply (rule exI [of _ ?st2])
    apply (rule exI [of _ "?e password'"])
    apply (intro conjI)
    apply (rule first)
    apply (rule e1)
    apply (rule absent)
    apply (rule present)
    apply (rule pair_stamped)
    apply (rule pair_same)
    apply (rule second)
    apply (rule e2)
    apply (rule unchanged)
    apply (rule refl)
    done
qed

theorem saveAccount_keeps_whenCreated_witness:
  "decodeAddress sampleExt (address sampleExt alicePair) = Some (p_publicKey alicePair) \<and>
   (1000 :: int) \<noteq> 0 \<and>
   \<not> isLocked alicePair \<and>
   getProp (p_meta alicePair) ''whenCreated'' = JUndefined \<and>
   (case saveAccount sampleExt emptyState alicePair (Some ''pw'') 1000 of
      (p1, Inl e) \<Rightarrow> False
    | (p1, Inr st1) \<Rightarrow>
        p1 = alicePair\<lparr> p_meta := [(''name'', JStr ''alice''), (''whenCreated'', JNum 1000)] \<rparr> \<and>
        (case entry (accounts st1) ''5Alice'' of
           None \<Rightarrow> False
         | Some e1 \<Rightarrow> getProp (j_meta (s_json e1)) ''whenCreated'' = JNum 1000) \<and>
        (case saveAccount sampleExt st1 p1 None 2000 of
           (p2, Inl e) \<Rightarrow> False
         | (p2, Inr st2) \<Rightarrow>
             p2 = p1 \<and>
             (case entry (accounts st2) ''5Alice'' of
                None \<Rightarrow> False
              | Some e2 \<Rightarrow> getProp (j_meta (s_json e2)) ''whenCreated'' = JNum 1000)))"
proof -
  have codec: "decodeAddress sampleExt (address sampleExt alicePair) = Some (p_publicKey alicePair)"
    by (simp add: sampleExt_def address_def alicePair_def)
  have clock: "(1000 :: int) \<noteq> 0" by simp
  have unlocked: "\<not> isLocked alicePair" by (simp add: isLocked_def alicePair_def)
  show ?thesis
    using codec clock unlocked
      saveAccount_keeps_whenCreated [OF codec clock unlocked, of emptyState "Some ''pw''" None 2000]
    by (simp add: sampleExt_def emptyState_def alicePair_def saveAccount_def toJson_def
                  address_def addFromJson_def addPair_reg_def obs_add_def isLocked_def
                  entry_def getProp_def Let_def)
qed

section \<open>Layout of the options\<close>

lemma truthy_default_False: "truthy (getPropDefault m k (JBool False)) = truthy (getProp m k)"
  by (simp add: getPropDefault_def)

lemma partition_accounts:
  "fold (\<lambda>sa opts. if P sa then opts\<lparr> opt_account := opt_account opts @ [s_option sa] \<rparr>
                     else opts\<lparr> opt_testing := opt_testing opts @ [s_option sa] \<rparr>) xs opts =
     opts\<lparr> opt_account := opt_account opts @ map s_option (filter P xs),
           opt_testing := opt_testing opts @ map s_option (filter (\<lambda>sa. \<not> P sa) xs) \<rparr>"
  by (induction xs arbitrary: opts) simp_all

lemma partition_addresses:
  "fold (\<lambda>sa opts. if P sa then opts\<lparr> opt_recent := opt_recent opts @ [s_option sa] \<rparr>
                     else opts\<lparr> opt_address := opt_address opts @ [s_option sa] \<rparr>) xs opts =
     opts\<lparr> opt_recent := opt_recent opts @ map s_option (filter P xs),
           opt_address := opt_address opts @ map s_option (filter (\<lambda>sa. \<not> P sa) xs) \<rparr>"
  by (induction xs arbitrary: opts) simp_all

lemma addAccounts_partition:
  "addAccounts st opts =
     opts\<lparr> opt_account := opt_account opts @
             map s_option (filter (\<lambda>sa. \<not> truthy (getProp (j_meta (s_json sa)) ''isTesting''))
                                  (map snd (accounts st))),
           opt_testing := opt_testing opts @
             map s_option (filter (\<lambda>sa. truthy (getProp (j_meta (s_json sa)) ''isTesting''))
                                  (map snd (accounts st))) \<rparr>"
  unfolding addAccounts_def truthy_default_False
  by (simp add: partition_accounts)

lemma addAddresses_partition:
  "addAddresses st opts =
     opts\<lparr> opt_recent := opt_recent opts @
             map s_option (filter (\<lambda>sa. truthy (getProp (j_meta (s_json sa)) ''isRecent''))
                                  (map snd (addresses st))),
           opt_address := opt_address opts @
             map s_option (filter (\<lambda>sa. \<not> truthy (getProp (j_meta (s_json sa)) ''isRecent''))
                                  (map snd (addresses st))) \<rparr>"
  unfolding addAddresses_def truthy_default_False
  by (simp add: partition_addresses)

lemma two_accounts:
  "a \<noteq> b \<Longrightarrow>
   map snd (obs_add b jb (obs_add a ja [])) =
     [\<lparr> s_json = ja, s_option = createOptionItem a (getProp (j_meta ja) ''name'') \<rparr>,
      \<lparr> s_json = jb, s_option = createOptionItem b (getProp (j_meta jb) ''name'') \<rparr>]"
  by (simp add: obs_add_def)

text \<open>
  C6. For every state of the stores, the recomputed options are laid out as follows. The
  account sequence is the header Accounts and the options of the entries not flagged
  isTesting, in store order, when there is one, followed by the header Development and the
  options of the flagged entries when there is one. The address sequence is built the same
  way from the entries not flagged isRecent under Addresses and the flagged ones under
  Recent. The sequence all is the account sequence followed by the address sequence. With
  two accounts added to an empty store, the first not flagged and the second flagged, all
  is Accounts, the first, Development, the second, then the address sequence.
\<close>

theorem recomputeOptions_layout:
  "(let acct = map s_option (filter (\<lambda>sa. \<not> truthy (getProp (j_meta (s_json sa)) ''isTesting''))
                                    (map snd (accounts st)));
        test = map s_option (filter (\<lambda>sa. truthy (getProp (j_meta (s_json sa)) ''isTesting''))
                                    (map snd (accounts st)));
        addr = map s_option (filter (\<lambda>sa. \<not> truthy (getProp (j_meta (s_json sa)) ''isRecent''))
                                    (map snd (addresses st)));
        recent = map s_option (filter (\<lambda>sa. truthy (getProp (j_meta (s_json sa)) ''isRecent''))
                                      (map snd (addresses st)));
        options = recomputeOptions st
    in opt_account options =
         (if acct \<noteq> [] then [createOptionHeader ''Accounts''] else []) @ acct @
         (if test \<noteq> [] then [createOptionHeader ''Development''] else []) @ test \<and>
       opt_address options =
         (if addr \<noteq> [] then [createOptionHeader ''Addresses''] else []) @ addr @
         (if recent \<noteq> [] then [createOptionHeader ''Recent''] else []) @ recent \<and>
       opt_all options = opt_account options @ opt_address options \<and>
       (\<forall>a b ja jb.
          accounts st = obs_add b jb (obs_add a ja []) \<and> a \<noteq> b \<and>
          \<not> truthy (getProp (j_meta ja) ''isTesting'') \<and> truthy (getProp (j_meta jb) ''isTesting'') \<longrightarrow>
          opt_all options =
            [createOptionHeader ''Accounts'', createOptionItem a (getProp (j_meta ja) ''name''),
             createOptionHeader ''Development'', createOptionItem b (getProp (j_meta jb) ''name'')] @
            opt_address options))"
proof -
  let ?acct = "map s_option (filter (\<lambda>sa. \<not> truthy (getProp (j_meta (s_json sa)) ''isTesting''))
                                    (map snd (accounts st)))"
  let ?test = "map s_option (filter (\<lambda>sa. truthy (getProp (j_meta (s_json sa)) ''isTesting''))
                                    (map snd (accounts st)))"
  let ?addr = "map s_option (filter (\<lambda>sa. \<not> truthy (getProp (j_meta (s_json sa)) ''isRecent''))
                                    (map snd (addresses st)))"
  let ?recent = "map s_option (filter (\<lambda>sa. truthy (getProp (j_meta (s_json sa)) ''isRecent''))
                                      (map snd (addresses st)))"
  have account: "opt_account (recomputeOptions st) =
         (if ?acct \<noteq> [] then [createOptionHeader ''Accounts''] else []) @ ?acct @
         (if ?test \<noteq> [] then [createOptionHeader ''Development''] else []) @ ?test"
    by (simp add: recomputeOptions_def Let_def addAccounts_partition addAddresses_partition
                  emptyOptions_def)
  have address: "opt_address (recomputeOptions st) =
         (if ?addr \<noteq> [] then [createOptionHeader ''Addresses''] else []) @ ?addr @
         (if ?recent \<noteq> [] then [createOptionHeader ''Recent''] else []) @ ?recent"
    by (simp add: recomputeOptions_def Let_def addAccounts_partition addAddresses_partition
                  emptyOptions_def)
  have all: "opt_all (recomputeOptions st) =
               opt_account (recomputeOptions st) @ opt_address (recomputeOptions st)"
    by (simp add: recomputeOptions_def Let_def)
  have two: "opt_all (recomputeOptions st) =
            [createOptionHeader ''Accounts'', createOptionItem a (getProp (j_meta ja) ''name''),
             createOptionHeader ''Development'', createOptionItem b (getProp (j_meta jb) ''name'')] @
            opt_address (recomputeOptions st)"
    if "accounts st = obs_add b jb (obs_add a ja [])" "a \<noteq> b"
       "\<not> truthy (getProp (j_meta ja) ''isTesting'')" "truthy (getProp (j_meta jb) ''isTesting'')"
    for a b ja jb
    unfolding all account using that by (simp add: two_accounts)
  from account address all two show ?thesis
    unfolding Let_def by blast
qed

theorem recomputeOptions_layout_witness:
  "accounts accountsState = obs_add ''5Bob'' bobJson (obs_add ''5Alice'' aliceJson []) \<and>
   ''5Alice'' \<noteq> ''5Bob'' \<and>
   \<not> truthy (getProp (j_meta aliceJson) ''isTesting'') \<and>
   truthy (getProp (j_meta bobJson) ''isTesting'') \<and>
   opt_all (recomputeOptions accountsState) =
     [\<lparr> o_className = Some ''header disabled'', o_name = ''Accounts'',
         o_key = ''header-accounts'', o_text = ''Accounts'', o_value = None \<rparr>,
      \<lparr> o_className = None, o_name = ''alice'', o_key = ''5Alice'', o_text = ''alice'',
         o_value = Some ''5Alice'' \<rparr>,
      \<lparr> o_className = Some ''header disabled'', o_name = ''Development'',
         o_key = ''header-development'', o_text = ''Development'', o_value = None \<rparr>,
      \<lparr> o_className = None, o_name = ''5Bob'', o_key = ''5Bob'', o_text = ''5Bob'',
         o_value = Some ''5Bob'' \<rparr>,
      \<lparr> o_className = Some ''header disabled'', o_name = ''Recent'',
         o_key = ''header-recent'', o_text = ''Recent'', o_value = None \<rparr>,
      \<lparr> o_className = None, o_name = ''5Alice'', o_key = ''5Alice'', o_text = ''5Alice'',
         o_value = Some ''5Alice'' \<rparr>]"
proof -
  have accounts_header:
    "createOptionHeader ''Accounts'' =
       \<lparr> o_className = Some ''header disabled'', o_name = ''Accounts'',
         o_key = ''header-accounts'', o_text = ''Accounts'', o_value = None \<rparr>"
    by code_simp
  have development_header:
    "createOptionHeader ''Development'' =
       \<lparr> o_className = Some ''header disabled'', o_name = ''Development'',
         o_key = ''header-development'', o_text = ''Development'', o_value = None \<rparr>"
    by code_simp
  have recent_header:
    "createOptionHeader ''Recent'' =
       \<lparr> o_className = Some ''header disabled'', o_name = ''Recent'',
         o_key = ''header-recent'', o_text = ''Recent'', o_value = None \<rparr>"
    by code_simp
  note headers = accounts_header development_header recent_header
  have address_side: "map snd (addresses accountsState) = [aliceRecent]"
    by (simp add: accountsState_def)
  have acc: "accounts accountsState = obs_add ''5Bob'' bobJson (obs_add ''5Alice'' aliceJson [])"
    by (simp add: accountsState_def)
  have ne: "''5Alice'' \<noteq> ''5Bob''" by simp
  have flags: "\<not> truthy (getProp (j_meta aliceJson) ''isTesting'')"
    "truthy (getProp (j_meta bobJson) ''isTesting'')"
    by (simp_all add: aliceJson_def bobJson_def getProp_def)
  have account_side: "opt_all (recomputeOptions accountsState) =
      [createOptionHeader ''Accounts'',
       createOptionItem ''5Alice'' (getProp (j_meta aliceJson) ''name''),
       createOptionHeader ''Development'',
       createOptionItem ''5Bob'' (getProp (j_meta bobJson) ''name'')] @
      opt_address (recomputeOptions accountsState)"
    using recomputeOptions_layout [of accountsState] acc ne flags
    unfolding Let_def by blast
  have recent_side: "opt_address (recomputeOptions accountsState) =
      [createOptionHeader ''Recent'', s_option aliceRecent]"
    using recomputeOptions_layout [of accountsState]
    unfolding Let_def address_side
    by (simp add: aliceRecent_def recentJson_def getProp_def)
  have items:
    "createOptionItem ''5Alice'' (getProp (j_meta aliceJson) ''name'') =
       \<lparr> o_className = None, o_name = ''alice'', o_key = ''5Alice'', o_text = ''alice'',
         o_value = Some ''5Alice'' \<rparr>"
    "createOptionItem ''5Bob'' (getProp (j_meta bobJson) ''name'') =
       \<lparr> o_className = None, o_name = ''5Bob'', o_key = ''5Bob'', o_text = ''5Bob'',
         o_value = Some ''5Bob'' \<rparr>"
    by (simp_all add: createOptionItem_def aliceJson_def bobJson_def getProp_def Let_def)
  show ?thesis
    unfolding account_side recent_side headers items
    using acc flags by (simp add: aliceRecent_def)
qed

section \<open>Construction of the facade\<close>


text \<open>An enumeration is the visitor on the sequence of the entries it handed out.\<close>

lemma eachFrom_visits: "\<exists>kvs. eachFrom f n w = visits f kvs w"
proof (induction n arbitrary: w)
  case 0
  have "eachFrom f 0 w = visits f [] w" by simp
  then show ?case by blast
next
  case (Suc i)
  show ?case
  proof (cases "i < length (w_store w)")
    case False
    with Suc.IH [of w] show ?thesis by simp
  next
    case True
    obtain w1 r where step: "f (w_store w ! i) w = (w1, r)" by (cases "f (w_store w ! i) w")
    show ?thesis
    proof (cases r)
      case (Some e)
      with True step have "eachFrom f (Suc i) w = visits f [w_store w ! i] w" by simp
      then show ?thesis by blast
    next
      case None
      from Suc.IH [of w1] obtain kvs where "eachFrom f i w1 = visits f kvs w1" by blast
      with None True step
      have "eachFrom f (Suc i) w = visits f (w_store w ! i # kvs) w" by simp
      then show ?thesis by blast
    qed
  qed
qed













section \<open>Migration of legacy keys\<close>

lemma split_no_separator: "c \<notin> set s \<Longrightarrow> split c s = [s]"
  by (induction s) auto

lemma split_first_segment: "c \<notin> set a \<Longrightarrow> split c (a @ c # b) = a # split c b"
  by (induction a) auto

lemma hexDigit_no_colon: "n < 16 \<Longrightarrow> hexDigit n \<noteq> CHR '':''"
proof -
  assume "n < 16"
  then have "hexDigit n \<in> set ''0123456789abcdef''"
    unfolding hexDigit_def by (intro nth_mem) simp
  then show ?thesis by auto
qed

lemma hexByte_no_colon: "CHR '':'' \<notin> set (hexByte b)"
proof -
  have "unat b < 256" using unsigned_less [of b] by simp
  then have "unat b div 16 < 16" "unat b mod 16 < 16" by simp_all
  then have "hexDigit (unat b div 16) \<noteq> CHR '':''" "hexDigit (unat b mod 16) \<noteq> CHR '':''"
    by (simp_all only: hexDigit_no_colon not_False_eq_True)
  then show ?thesis
    by (auto simp: hexByte_def)
qed

lemma u8aToHex_no_colon: "CHR '':'' \<notin> set (u8aToHex u)"
  using hexByte_no_colon by (auto simp: u8aToHex_def)

lemma u8aToHex_prefix: "take 2 (u8aToHex u) = ''0x''"
  by (simp add: u8aToHex_def)

lemma hexAddrOf_account: "hexAddrOf (''account:'' @ u8aToHex u) = Some (u8aToHex u)"
proof -
  have "split CHR '':'' (''account'' @ CHR '':'' # u8aToHex u) = ''account'' # [u8aToHex u]"
    by (subst split_first_segment) (simp_all add: split_no_separator u8aToHex_no_colon)
  then show ?thesis by (simp add: hexAddrOf_def)
qed

lemma hexAddrOf_address: "hexAddrOf (''address:'' @ u8aToHex u) = Some (u8aToHex u)"
proof -
  have "split CHR '':'' (''address'' @ CHR '':'' # u8aToHex u) = ''address'' # [u8aToHex u]"
    by (subst split_first_segment) (simp_all add: split_no_separator u8aToHex_no_colon)
  then show ?thesis by (simp add: hexAddrOf_def)
qed

lemma accountKey_canonical: "accountKey x h = Inr c \<Longrightarrow> \<not> migrated c"
  by (auto simp: accountKey_def migrated_def isLegacyKey_def hexAddrOf_account [simplified]
                 u8aToHex_prefix split: option.splits)

lemma addressKey_canonical: "addressKey x h = Inr c \<Longrightarrow> \<not> migrated c"
  by (auto simp: addressKey_def migrated_def isLegacyKey_def hexAddrOf_address [simplified]
                 u8aToHex_prefix split: option.splits)

lemma canonicalKey_canonical: "canonicalKey x k = Inr c \<Longrightarrow> \<not> migrated c"
  using accountKey_canonical addressKey_canonical
  by (auto simp: canonicalKey_def split: option.splits if_splits)

text \<open>The store operations on keys and on lookups, wherever a new key is placed.\<close>

lemma keys_insertAt: "fst ` set (insertAt n e xs) = insert (fst e) (fst ` set xs)"
proof -
  have "set (take n xs) \<union> set (drop n xs) = set xs"
    by (metis append_take_drop_id set_append)
  then have "set (insertAt n e xs) = insert e (set xs)"
    unfolding insertAt_def by auto
  then show ?thesis by simp
qed

lemma map_of_insertAt:
  assumes "map_of s k = None"
  shows "map_of (insertAt n (k, v) s) = (map_of s)(k \<mapsto> v)"
proof
  fix k'
  have whole: "(map_of (drop n s) ++ map_of (take n s)) k' = map_of s k'"
    by (metis append_take_drop_id map_of_append)
  have front: "map_of (take n s) k = None"
    using assms by (metis append_take_drop_id map_add_None map_of_append)
  have shape: "map_of (insertAt n (k, v) s) q =
                 (map_of ((k, v) # drop n s) ++ map_of (take n s)) q" for q
    unfolding insertAt_def by (simp only: map_of_append)
  show "map_of (insertAt n (k, v) s) k' = ((map_of s)(k \<mapsto> v)) k'"
  proof (cases "k' = k")
    case True
    then show ?thesis
      using front by (simp add: shape map_add_def)
  next
    case False
    then have "(map_of ((k, v) # drop n s) ++ map_of (take n s)) k' =
               (map_of (drop n s) ++ map_of (take n s)) k'"
      by (simp add: map_add_def split: option.splits)
    with False show ?thesis by (simp add: shape whole)
  qed
qed

lemma keys_store_set: "fst ` set (store_set x c v s) = insert c (fst ` set s)"
  by (simp add: store_set_def keys_insertAt dom_update)

lemma map_of_store_set: "map_of (store_set x c v s) = (map_of s)(c \<mapsto> v)"
  by (simp add: store_set_def map_of_insertAt update_conv')

lemma keys_store_remove: "fst ` set (store_remove k s) = fst ` set s - {k}"
  by (auto simp: store_remove_def AList.delete_eq)

lemma map_of_store_remove: "map_of (store_remove k s) = (map_of s)(k := None)"
  by (simp add: store_remove_def delete_conv')

text \<open>What one visit does to the store.\<close>

lemma accountsAdd_store:
  "accountsAdd x a sj w = (w1, r) \<Longrightarrow>
     w_store w1 = w_store w \<or>
     (\<exists>c. \<not> migrated c \<and> w_store w1 = store_set x c sj (w_store w))"
  by (auto simp: accountsAdd_def dest: accountKey_canonical split: option.splits sum.splits)

lemma addressesAdd_store:
  "addressesAdd x a sj w = (w1, r) \<Longrightarrow>
     w_store w1 = w_store w \<or>
     (\<exists>c. \<not> migrated c \<and> w_store w1 = store_set x c sj (w_store w))"
  by (auto simp: addressesAdd_def dest: addressKey_canonical split: option.splits sum.splits)

lemma loadAccount_store:
  assumes "loadAccount x k sj w = (w1, r)"
  shows "\<exists>s1. (s1 = w_store w \<or> (\<exists>c. \<not> migrated c \<and> s1 = store_set x c sj (w_store w))) \<and>
              ((w_store w1 = s1 \<and> (r = None \<longrightarrow> \<not> isLegacyKey k)) \<or>
               (isLegacyKey k \<and>
                (\<exists>h. hexAddrOf k = Some h \<and>
                     ((\<exists>e. accountKey x h = Inl e \<and> r = Some e \<and> w_store w1 = store_remove k s1) \<or>
                      (\<exists>c. accountKey x h = Inr c \<and> r = None \<and>
                           w_store w1 = store_set x c sj (store_remove k s1))))))"
proof (cases "withMeta sj")
  case None
  with assms show ?thesis by (auto simp: loadAccount_def)
next
  case (Some json)
  let ?reg = "if \<not> truthy (getProp (j_meta json) ''isTesting'') \<and> truthy (j_encoded json)
              then (case addFromJson x json (keyring (w_state w)) of
                      Inl e \<Rightarrow> (w, Some e)
                    | Inr (p, kr) \<Rightarrow>
                        accountsAdd x (address x p) sj
                          (w\<lparr> w_state := (w_state w)\<lparr> keyring := kr \<rparr> \<rparr>))
              else (w, None)"
  obtain wa ra where reg: "?reg = (wa, ra)" by (cases ?reg)
  have s1: "w_store wa = w_store w \<or>
            (\<exists>c. \<not> migrated c \<and> w_store wa = store_set x c sj (w_store w))"
    using reg
    by (auto dest!: accountsAdd_store split: if_splits sum.splits prod.splits)
  have "loadAccount x k sj w =
     (case ?reg of
        (wa, Some e) \<Rightarrow> (wa, Some e)
      | (wa, None) \<Rightarrow>
          (case hexAddrOf k of
             None \<Rightarrow> (wa, Some TypeError)
           | Some hexAddr \<Rightarrow>
               if take 2 hexAddr \<noteq> ''0x''
               then (let w2 = wa\<lparr> w_store := store_remove k (w_store wa) \<rparr>
                     in case accountKey x hexAddr of
                          Inl e \<Rightarrow> (w2, Some e)
                        | Inr c \<Rightarrow> (w2\<lparr> w_store := store_set x c sj (w_store w2) \<rparr>, None))
               else (wa, None)))"
    by (simp add: loadAccount_def Some)
  then have rest: "(w1, r) =
     (case ra of
        Some e \<Rightarrow> (wa, Some e)
      | None \<Rightarrow>
          (case hexAddrOf k of
             None \<Rightarrow> (wa, Some TypeError)
           | Some hexAddr \<Rightarrow>
               if take 2 hexAddr \<noteq> ''0x''
               then (let w2 = wa\<lparr> w_store := store_remove k (w_store wa) \<rparr>
                     in case accountKey x hexAddr of
                          Inl e \<Rightarrow> (w2, Some e)
                        | Inr c \<Rightarrow> (w2\<lparr> w_store := store_set x c sj (w_store w2) \<rparr>, None))
               else (wa, None)))"
    unfolding reg assms by (cases ra) simp_all
  show ?thesis
    apply (rule exI [of _ "w_store wa"])
    using s1 rest
    by (auto simp: isLegacyKey_def Let_def split: option.splits if_splits sum.splits)
qed

lemma loadAddress_store:
  assumes "loadAddress x k sj w = (w1, r)"
  shows "\<exists>s1. (s1 = w_store w \<or> (\<exists>c. \<not> migrated c \<and> s1 = store_set x c sj (w_store w))) \<and>
              ((w_store w1 = s1 \<and> (r = None \<longrightarrow> \<not> isLegacyKey k)) \<or>
               (isLegacyKey k \<and>
                (\<exists>h. hexAddrOf k = Some h \<and>
                     ((\<exists>e. addressKey x h = Inl e \<and> r = Some e \<and> w_store w1 = store_remove k s1) \<or>
                      (\<exists>c. addressKey x h = Inr c \<and> r = None \<and>
                           w_store w1 = store_set x c sj (store_remove k s1))))))"
proof (cases "if isHex x (sj_address sj) then Some (hexToU8a x (sj_address sj))
              else decodeAddress x (sj_address sj)")
  case None
  with assms show ?thesis by (auto simp: loadAddress_def)
next
  case (Some u)
  obtain wa ra where reg: "addressesAdd x (encodeAddress x u) sj w = (wa, ra)"
    by (cases "addressesAdd x (encodeAddress x u) sj w")
  have s1: "w_store wa = w_store w \<or>
            (\<exists>c. \<not> migrated c \<and> w_store wa = store_set x c sj (w_store w))"
    using reg by (rule addressesAdd_store)
  have "loadAddress x k sj w =
     (case addressesAdd x (encodeAddress x u) sj w of
        (wa, Some e) \<Rightarrow> (wa, Some e)
      | (wa, None) \<Rightarrow>
          (case hexAddrOf k of
             None \<Rightarrow> (wa, Some TypeError)
           | Some hexAddr \<Rightarrow>
               if take 2 hexAddr \<noteq> ''0x''
               then (let w2 = wa\<lparr> w_store := store_remove k (w_store wa) \<rparr>
                     in case addressKey x hexAddr of
                          Inl e \<Rightarrow> (w2, Some e)
                        | Inr c \<Rightarrow> (w2\<lparr> w_store := store_set x c sj (w_store w2) \<rparr>, None))
               else (wa, None)))"
    unfolding loadAddress_def Some by simp
  then have rest: "(w1, r) =
     (case ra of
        Some e \<Rightarrow> (wa, Some e)
      | None \<Rightarrow>
          (case hexAddrOf k of
             None \<Rightarrow> (wa, Some TypeError)
           | Some hexAddr \<Rightarrow>
               if take 2 hexAddr \<noteq> ''0x''
               then (let w2 = wa\<lparr> w_store := store_remove k (w_store wa) \<rparr>
                     in case addressKey x hexAddr of
                          Inl e \<Rightarrow> (w2, Some e)
                        | Inr c \<Rightarrow> (w2\<lparr> w_store := store_set x c sj (w_store w2) \<rparr>, None))
               else (wa, None)))"
    unfolding reg assms by (cases ra) simp_all
  show ?thesis
    apply (rule exI [of _ "w_store wa"])
    using s1 rest
    by (auto simp: isLegacyKey_def Let_def split: option.splits if_splits sum.splits)
qed

lemma loadEntry_store_aux:
  assumes mig: "isLegacyKey k \<Longrightarrow> migrated k" and mig': "migrated k \<Longrightarrow> isLegacyKey k"
    and can: "\<And>h. hexAddrOf k = Some h \<Longrightarrow> canonicalKey x k = key x h"
    and run: "\<exists>s1. (s1 = w_store w \<or> (\<exists>c. \<not> migrated c \<and> s1 = store_set x c sj (w_store w))) \<and>
              ((w_store w1 = s1 \<and> (r = None \<longrightarrow> \<not> isLegacyKey k)) \<or>
               (isLegacyKey k \<and>
                (\<exists>h. hexAddrOf k = Some h \<and>
                     ((\<exists>e. key x h = Inl e \<and> r = Some e \<and> w_store w1 = store_remove k s1) \<or>
                      (\<exists>c. key x h = Inr c \<and> r = None \<and>
                           w_store w1 = store_set x c sj (store_remove k s1))))))"
  shows "\<exists>s1. (s1 = w_store w \<or> (\<exists>c. \<not> migrated c \<and> s1 = store_set x c sj (w_store w))) \<and>
              ((w_store w1 = s1 \<and> (r = None \<longrightarrow> \<not> migrated k)) \<or>
               (migrated k \<and>
                ((\<exists>e. canonicalKey x k = Inl e \<and> r = Some e \<and> w_store w1 = store_remove k s1) \<or>
                 (\<exists>c. canonicalKey x k = Inr c \<and> r = None \<and>
                      w_store w1 = store_set x c sj (store_remove k s1)))))"
proof -
  from run obtain s1 where
    s1: "s1 = w_store w \<or> (\<exists>c. \<not> migrated c \<and> s1 = store_set x c sj (w_store w))"
    and alt: "(w_store w1 = s1 \<and> (r = None \<longrightarrow> \<not> isLegacyKey k)) \<or>
               (isLegacyKey k \<and>
                (\<exists>h. hexAddrOf k = Some h \<and>
                     ((\<exists>e. key x h = Inl e \<and> r = Some e \<and> w_store w1 = store_remove k s1) \<or>
                      (\<exists>c. key x h = Inr c \<and> r = None \<and>
                           w_store w1 = store_set x c sj (store_remove k s1)))))"
    by blast
  from alt have "(w_store w1 = s1 \<and> (r = None \<longrightarrow> \<not> migrated k)) \<or>
               (migrated k \<and>
                ((\<exists>e. canonicalKey x k = Inl e \<and> r = Some e \<and> w_store w1 = store_remove k s1) \<or>
                 (\<exists>c. canonicalKey x k = Inr c \<and> r = None \<and>
                      w_store w1 = store_set x c sj (store_remove k s1))))"
  proof
    assume "w_store w1 = s1 \<and> (r = None \<longrightarrow> \<not> isLegacyKey k)"
    with mig' show ?thesis by blast
  next
    assume "isLegacyKey k \<and>
                (\<exists>h. hexAddrOf k = Some h \<and>
                     ((\<exists>e. key x h = Inl e \<and> r = Some e \<and> w_store w1 = store_remove k s1) \<or>
                      (\<exists>c. key x h = Inr c \<and> r = None \<and>
                           w_store w1 = store_set x c sj (store_remove k s1))))"
    then obtain h where l: "isLegacyKey k" and h: "hexAddrOf k = Some h"
      and d: "(\<exists>e. key x h = Inl e \<and> r = Some e \<and> w_store w1 = store_remove k s1) \<or>
              (\<exists>c. key x h = Inr c \<and> r = None \<and>
                           w_store w1 = store_set x c sj (store_remove k s1))"
      by blast
    from d show ?thesis unfolding can [OF h] using mig [OF l] by blast
  qed
  with s1 show ?thesis by blast
qed

lemma loadEntry_store:
  assumes "loadEntry x (k, sj) w = (w1, r)"
  shows "\<exists>s1. (s1 = w_store w \<or> (\<exists>c. \<not> migrated c \<and> s1 = store_set x c sj (w_store w))) \<and>
              ((w_store w1 = s1 \<and> (r = None \<longrightarrow> \<not> migrated k)) \<or>
               (migrated k \<and>
                ((\<exists>e. canonicalKey x k = Inl e \<and> r = Some e \<and> w_store w1 = store_remove k s1) \<or>
                 (\<exists>c. canonicalKey x k = Inr c \<and> r = None \<and>
                      w_store w1 = store_set x c sj (store_remove k s1)))))"
proof (cases "accountRegex k")
  case True
  with assms have run: "loadAccount x k sj w = (w1, r)" by (simp add: loadEntry_def)
  show ?thesis
  proof (rule loadEntry_store_aux [where key = accountKey, OF _ _ _ loadAccount_store [OF run]])
    show "isLegacyKey k \<Longrightarrow> migrated k" using True by (simp add: migrated_def)
    show "migrated k \<Longrightarrow> isLegacyKey k" by (simp add: migrated_def)
    show "\<And>h. hexAddrOf k = Some h \<Longrightarrow> canonicalKey x k = accountKey x h"
      using True by (simp add: canonicalKey_def)
  qed
next
  case False
  show ?thesis
  proof (cases "addressRegex k")
    case True
    with assms False have run: "loadAddress x k sj w = (w1, r)" by (simp add: loadEntry_def)
    show ?thesis
    proof (rule loadEntry_store_aux [where key = addressKey, OF _ _ _ loadAddress_store [OF run]])
      show "isLegacyKey k \<Longrightarrow> migrated k" using True by (simp add: migrated_def)
      show "migrated k \<Longrightarrow> isLegacyKey k" by (simp add: migrated_def)
      show "\<And>h. hexAddrOf k = Some h \<Longrightarrow> canonicalKey x k = addressKey x h"
        using False by (simp add: canonicalKey_def)
    qed
  next
    case no: False
    from assms False no have "w1 = w" "r = None" by (simp_all add: loadEntry_def)
    moreover have "\<not> migrated k" using False no by (simp add: migrated_def)
    ultimately show ?thesis by blast
  qed
qed

text \<open>No visit writes a key in legacy form, and no visit removes a canonical key.\<close>

lemma loadEntry_keys:
  assumes "loadEntry x (k, sj) w = (w1, r)"
  shows "(\<forall>k' \<in> fst ` set (w_store w1). migrated k' \<longrightarrow> k' \<in> fst ` set (w_store w)) \<and>
         (\<forall>c \<in> fst ` set (w_store w). \<not> migrated c \<longrightarrow> c \<in> fst ` set (w_store w1))"
proof -
  define A0 where "A0 = fst ` set (w_store w)"
  define A2 where "A2 = fst ` set (w_store w1)"
  from loadEntry_store [OF assms] obtain s1 where both:
    "(s1 = w_store w \<or> (\<exists>c. \<not> migrated c \<and> s1 = store_set x c sj (w_store w))) \<and>
     ((w_store w1 = s1 \<and> (r = None \<longrightarrow> \<not> migrated k)) \<or>
      (migrated k \<and>
       ((\<exists>e. canonicalKey x k = Inl e \<and> r = Some e \<and> w_store w1 = store_remove k s1) \<or>
        (\<exists>c. canonicalKey x k = Inr c \<and> r = None \<and>
             w_store w1 = store_set x c sj (store_remove k s1)))))" ..
  define A1 where "A1 = fst ` set s1"
  from both have s1: "s1 = w_store w \<or> (\<exists>c. \<not> migrated c \<and> s1 = store_set x c sj (w_store w))"
    by (rule conjunct1)
  from both have alt: "(w_store w1 = s1 \<and> (r = None \<longrightarrow> \<not> migrated k)) \<or>
      (migrated k \<and>
       ((\<exists>e. canonicalKey x k = Inl e \<and> r = Some e \<and> w_store w1 = store_remove k s1) \<or>
        (\<exists>c. canonicalKey x k = Inr c \<and> r = None \<and>
             w_store w1 = store_set x c sj (store_remove k s1))))"
    by (rule conjunct2)
  have k1: "A1 = A0 \<or> (\<exists>c. \<not> migrated c \<and> A1 = insert c A0)"
    using s1
  proof (elim disjE conjE exE)
    assume "s1 = w_store w"
    then show ?thesis by (simp add: A1_def A0_def)
  next
    fix c
    assume c: "\<not> migrated c" and s: "s1 = store_set x c sj (w_store w)"
    have "A1 = insert c A0" by (simp add: A1_def A0_def s keys_store_set)
    with c show ?thesis by blast
  qed
  have k2: "A2 = A1 \<or> (migrated k \<and> (A2 = A1 - {k} \<or> (\<exists>c. \<not> migrated c \<and> A2 = insert c (A1 - {k}))))"
    using alt
  proof (elim disjE conjE exE)
    assume "w_store w1 = s1"
    then show ?thesis by (simp add: A2_def A1_def)
  next
    assume "migrated k" and "w_store w1 = store_remove k s1"
    then show ?thesis by (simp add: A2_def A1_def keys_store_remove)
  next
    fix c
    assume m: "migrated k" and c: "canonicalKey x k = Inr c"
      and w: "w_store w1 = store_set x c sj (store_remove k s1)"
    have "A2 = insert c (A1 - {k})"
      by (simp add: A2_def A1_def w keys_store_set keys_store_remove)
    with m canonicalKey_canonical [OF c] show ?thesis by blast
  qed
  from k1 k2 have "(\<forall>k' \<in> A2. migrated k' \<longrightarrow> k' \<in> A0) \<and> (\<forall>c \<in> A0. \<not> migrated c \<longrightarrow> c \<in> A2)"
    by (elim disjE conjE exE) auto
  then show ?thesis unfolding A0_def A2_def .
qed

text \<open>A visit of a key in legacy form that returns has deleted the key and written the
  record under the canonical key; when the canonical key cannot be built, the visit throws.\<close>

lemma loadEntry_migrates:
  assumes run: "loadEntry x (k, sj) w = (w1, None)" and mig: "migrated k"
  shows "\<exists>c. canonicalKey x k = Inr c \<and> store_get (w_store w1) c = Some sj \<and>
             store_get (w_store w1) k = None"
proof -
  from loadEntry_store [OF run] obtain s1 where both:
    "(s1 = w_store w \<or> (\<exists>c. \<not> migrated c \<and> s1 = store_set x c sj (w_store w))) \<and>
     ((w_store w1 = s1 \<and> (None = (None :: error option) \<longrightarrow> \<not> migrated k)) \<or>
      (migrated k \<and>
       ((\<exists>e. canonicalKey x k = Inl e \<and> None = Some e \<and> w_store w1 = store_remove k s1) \<or>
        (\<exists>c. canonicalKey x k = Inr c \<and> None = (None :: error option) \<and>
             w_store w1 = store_set x c sj (store_remove k s1)))))" ..
  with mig obtain c where c: "canonicalKey x k = Inr c"
    and w1: "w_store w1 = store_set x c sj (store_remove k s1)"
    by (elim conjE disjE exE) simp_all
  from canonicalKey_canonical [OF c] mig have "k \<noteq> c" by blast
  then have "store_get (w_store w1) c = Some sj \<and> store_get (w_store w1) k = None"
    by (simp add: w1 store_get_def map_of_store_set map_of_store_remove)
  with c show ?thesis by blast
qed

lemma loadEntry_throws:
  assumes mig: "migrated k" and can: "canonicalKey x k = Inl e"
  shows "snd (loadEntry x (k, sj) w) \<noteq> None"
proof
  assume none: "snd (loadEntry x (k, sj) w) = None"
  obtain w1 where "loadEntry x (k, sj) w = (w1, None)"
    using none by (cases "loadEntry x (k, sj) w") simp
  from loadEntry_migrates [OF this mig] can show False by simp
qed

text \<open>The same over a sequence of visits.\<close>

lemma visits_keys:
  "visits (loadEntry x) kvs w = (w', r) \<Longrightarrow>
     (\<forall>k' \<in> fst ` set (w_store w'). migrated k' \<longrightarrow> k' \<in> fst ` set (w_store w)) \<and>
     (\<forall>c \<in> fst ` set (w_store w). \<not> migrated c \<longrightarrow> c \<in> fst ` set (w_store w'))"
proof (induction kvs arbitrary: w)
  case Nil
  then show ?case by simp
next
  case (Cons kv kvs)
  obtain k sj where kv: "kv = (k, sj)" by (cases kv)
  obtain w1 r1 where step: "loadEntry x (k, sj) w = (w1, r1)" by (cases "loadEntry x (k, sj) w")
  define A0 where "A0 = fst ` set (w_store w)"
  define A1 where "A1 = fst ` set (w_store w1)"
  define A2 where "A2 = fst ` set (w_store w')"
  have one: "(\<forall>k' \<in> A1. migrated k' \<longrightarrow> k' \<in> A0) \<and> (\<forall>c \<in> A0. \<not> migrated c \<longrightarrow> c \<in> A1)"
    unfolding A0_def A1_def by (rule loadEntry_keys [OF step])
  have "(\<forall>k' \<in> A2. migrated k' \<longrightarrow> k' \<in> A0) \<and> (\<forall>c \<in> A0. \<not> migrated c \<longrightarrow> c \<in> A2)"
  proof (cases r1)
    case (Some e)
    with Cons.prems kv step have "w' = w1" by simp
    with one show ?thesis by (simp add: A1_def A2_def)
  next
    case None
    with Cons.prems kv step have "visits (loadEntry x) kvs w1 = (w', r)" by simp
    from Cons.IH [OF this]
    have "(\<forall>k' \<in> A2. migrated k' \<longrightarrow> k' \<in> A1) \<and> (\<forall>c \<in> A1. \<not> migrated c \<longrightarrow> c \<in> A2)"
      unfolding A1_def A2_def .
    with one show ?thesis by blast
  qed
  then show ?case unfolding A0_def A2_def .
qed

lemma visits_migrates:
  "visits (loadEntry x) kvs w = (w', None) \<Longrightarrow>
     \<forall>k \<in> fst ` set kvs. migrated k \<longrightarrow>
        k \<notin> fst ` set (w_store w') \<and>
        (\<exists>c. canonicalKey x k = Inr c \<and> c \<in> fst ` set (w_store w'))"
proof (induction kvs arbitrary: w)
  case Nil
  then show ?case by simp
next
  case (Cons kv kvs)
  obtain k sj where kv: "kv = (k, sj)" by (cases kv)
  obtain w1 r1 where step: "loadEntry x (k, sj) w = (w1, r1)" by (cases "loadEntry x (k, sj) w")
  have r1: "r1 = None"
    using Cons.prems kv step by (cases r1) simp_all
  with Cons.prems kv step have rest: "visits (loadEntry x) kvs w1 = (w', None)" by simp
  define A1 where "A1 = fst ` set (w_store w1)"
  define A2 where "A2 = fst ` set (w_store w')"
  have keep: "(\<forall>k' \<in> A2. migrated k' \<longrightarrow> k' \<in> A1) \<and> (\<forall>c \<in> A1. \<not> migrated c \<longrightarrow> c \<in> A2)"
    unfolding A1_def A2_def by (rule visits_keys [OF rest])
  have here: "k \<notin> A2 \<and> (\<exists>c. canonicalKey x k = Inr c \<and> c \<in> A2)" if mig: "migrated k"
  proof -
    from loadEntry_migrates [OF step [unfolded r1] mig] obtain c where
      c: "canonicalKey x k = Inr c" and there: "store_get (w_store w1) c = Some sj"
      and gone: "store_get (w_store w1) k = None" by blast
    from there have "c \<in> A1"
      unfolding A1_def store_get_def by (metis map_of_eq_None_iff option.distinct(1))
    moreover from gone have "k \<notin> A1"
      unfolding A1_def store_get_def by (simp add: map_of_eq_None_iff)
    ultimately show ?thesis using keep mig c canonicalKey_canonical [OF c] by blast
  qed
  have later: "\<forall>k' \<in> fst ` set kvs. migrated k' \<longrightarrow>
                 k' \<notin> A2 \<and> (\<exists>c. canonicalKey x k' = Inr c \<and> c \<in> A2)"
    unfolding A2_def by (rule Cons.IH [OF rest])
  have "\<forall>k' \<in> insert k (fst ` set kvs). migrated k' \<longrightarrow>
                 k' \<notin> A2 \<and> (\<exists>c. canonicalKey x k' = Inr c \<and> c \<in> A2)"
    using here later by blast
  then show ?case unfolding A2_def kv by simp
qed

lemma loadAll_visits:
  "\<exists>kvs. loadAll x w =
     (case visits (loadEntry x) kvs (w\<lparr> w_state := addPairs x (w_state w) \<rparr>) of
        (w2, Some e) \<Rightarrow> (w2, Some e)
      | (w2, None) \<Rightarrow> (initOptions w2, None))"
proof -
  let ?w1 = "w\<lparr> w_state := addPairs x (w_state w) \<rparr>"
  from eachFrom_visits [of "loadEntry x" "length (w_store ?w1)" ?w1]
  obtain kvs where "each (loadEntry x) ?w1 = visits (loadEntry x) kvs ?w1"
    unfolding each_def by blast
  then have "loadAll x w =
     (case visits (loadEntry x) kvs ?w1 of
        (w2, Some e) \<Rightarrow> (w2, Some e)
      | (w2, None) \<Rightarrow> (initOptions w2, None))"
    by (simp add: loadAll_def Let_def)
  then show ?thesis by (rule exI)
qed

lemma w_store_initOptions: "w_store (initOptions w) = w_store w"
  by (simp add: initOptions_def)

lemma loadAll_keys:
  "(\<forall>k' \<in> fst ` set (w_store (fst (loadAll x w))). migrated k' \<longrightarrow> k' \<in> fst ` set (w_store w)) \<and>
   (\<forall>c \<in> fst ` set (w_store w). \<not> migrated c \<longrightarrow> c \<in> fst ` set (w_store (fst (loadAll x w))))"
proof -
  let ?w1 = "w\<lparr> w_state := addPairs x (w_state w) \<rparr>"
  from loadAll_visits [of x w] obtain kvs where run: "loadAll x w =
     (case visits (loadEntry x) kvs ?w1 of
        (w2, Some e) \<Rightarrow> (w2, Some e)
      | (w2, None) \<Rightarrow> (initOptions w2, None))" ..
  obtain w2 r where v: "visits (loadEntry x) kvs ?w1 = (w2, r)"
    by (cases "visits (loadEntry x) kvs ?w1")
  have "w_store (fst (loadAll x w)) = w_store w2"
    unfolding run v by (cases r) (simp_all add: w_store_initOptions)
  moreover have "w_store ?w1 = w_store w" by simp
  ultimately show ?thesis using visits_keys [OF v] by simp
qed

text \<open>A key that a completed visit took out of the store is the key it was handed, in
  legacy form.\<close>

lemma loadEntry_removed:
  assumes step: "loadEntry x (k0, sj) w = (w1, r)"
    and k: "k \<in> fst ` set (w_store w)" and gone: "k \<notin> fst ` set (w_store w1)"
  shows "k = k0 \<and> migrated k0"
proof -
  define A0 where "A0 = fst ` set (w_store w)"
  define A2 where "A2 = fst ` set (w_store w1)"
  from loadEntry_store [OF step] obtain s1 where both:
    "(s1 = w_store w \<or> (\<exists>c. \<not> migrated c \<and> s1 = store_set x c sj (w_store w))) \<and>
     ((w_store w1 = s1 \<and> (r = None \<longrightarrow> \<not> migrated k0)) \<or>
      (migrated k0 \<and>
       ((\<exists>e. canonicalKey x k0 = Inl e \<and> r = Some e \<and> w_store w1 = store_remove k0 s1) \<or>
        (\<exists>c. canonicalKey x k0 = Inr c \<and> r = None \<and>
             w_store w1 = store_set x c sj (store_remove k0 s1)))))" ..
  define A1 where "A1 = fst ` set s1"
  from both have s1: "s1 = w_store w \<or> (\<exists>c. \<not> migrated c \<and> s1 = store_set x c sj (w_store w))"
    by (rule conjunct1)
  from both have alt: "(w_store w1 = s1 \<and> (r = None \<longrightarrow> \<not> migrated k0)) \<or>
      (migrated k0 \<and>
       ((\<exists>e. canonicalKey x k0 = Inl e \<and> r = Some e \<and> w_store w1 = store_remove k0 s1) \<or>
        (\<exists>c. canonicalKey x k0 = Inr c \<and> r = None \<and>
             w_store w1 = store_set x c sj (store_remove k0 s1))))"
    by (rule conjunct2)
  have k1: "A0 \<subseteq> A1"
    using s1
  proof (elim disjE conjE exE)
    assume "s1 = w_store w"
    then show ?thesis by (simp add: A1_def A0_def)
  next
    fix c
    assume "s1 = store_set x c sj (w_store w)"
    then show ?thesis by (auto simp add: A1_def A0_def keys_store_set)
  qed
  have k2: "A2 = A1 \<or> (migrated k0 \<and> A1 - {k0} \<subseteq> A2)"
    using alt
  proof (elim disjE conjE exE)
    assume "w_store w1 = s1"
    then show ?thesis by (simp add: A2_def A1_def)
  next
    assume "migrated k0" and "w_store w1 = store_remove k0 s1"
    then show ?thesis by (simp add: A2_def A1_def keys_store_remove)
  next
    fix c
    assume m: "migrated k0" and w: "w_store w1 = store_set x c sj (store_remove k0 s1)"
    have "A2 = insert c (A1 - {k0})"
      by (simp add: A2_def A1_def w keys_store_set keys_store_remove)
    with m show ?thesis by blast
  qed
  from k gone have "k \<in> A0" "k \<notin> A2" by (simp_all add: A0_def A2_def)
  with k1 k2 show ?thesis by blast
qed

text \<open>When a sequence of visits completes, a key in legacy form that has left the store
  has its canonical key in the store.\<close>

lemma visits_written:
  "visits (loadEntry x) kvs w = (w', None) \<Longrightarrow>
     \<forall>k \<in> fst ` set (w_store w). migrated k \<longrightarrow> k \<notin> fst ` set (w_store w') \<longrightarrow>
        (\<exists>c. canonicalKey x k = Inr c \<and> c \<in> fst ` set (w_store w'))"
proof (induction kvs arbitrary: w)
  case Nil
  then show ?case by simp
next
  case (Cons kv kvs)
  obtain k0 sj where kv: "kv = (k0, sj)" by (cases kv)
  obtain w1 r1 where step: "loadEntry x (k0, sj) w = (w1, r1)"
    by (cases "loadEntry x (k0, sj) w")
  have r1: "r1 = None"
    using Cons.prems kv step by (cases r1) simp_all
  with Cons.prems kv step have rest: "visits (loadEntry x) kvs w1 = (w', None)" by simp
  show ?case
  proof (intro ballI impI)
    fix k
    assume k: "k \<in> fst ` set (w_store w)" and mig: "migrated k"
      and gone: "k \<notin> fst ` set (w_store w')"
    show "\<exists>c. canonicalKey x k = Inr c \<and> c \<in> fst ` set (w_store w')"
    proof (cases "k \<in> fst ` set (w_store w1)")
      case True
      with Cons.IH [OF rest] mig gone show ?thesis by blast
    next
      case False
      from loadEntry_removed [OF step k False] have same: "k = k0" by simp
      from loadEntry_migrates [OF step [unfolded r1]] mig same obtain c where
        c: "canonicalKey x k = Inr c" and there: "store_get (w_store w1) c = Some sj" by blast
      from there have "c \<in> fst ` set (w_store w1)"
        unfolding store_get_def by (metis map_of_eq_None_iff option.distinct(1))
      with visits_keys [OF rest] canonicalKey_canonical [OF c]
      have "c \<in> fst ` set (w_store w')" by blast
      with c show ?thesis by blast
    qed
  qed
qed

text \<open>A store that lists a new key after the keys it holds: the enumeration, walking down
  from the last position, then reaches every key that was in the store at the start.\<close>

lemma keys_drop: "fst ` set (drop i s) = set (drop i (map fst s))"
  by (simp add: drop_map)

lemma keys_drop_store_set:
  assumes place: "\<And>k ks. length ks \<le> placeKey x k ks"
  shows "fst ` set (drop i (store_set x c v s)) \<subseteq> insert c (fst ` set (drop i s))"
proof (cases "map_of s c")
  case None
  have "length (map fst s) \<le> placeKey x c (map fst s)" by (rule place)
  then have "store_set x c v s = s @ [(c, v)]"
    using None by (simp add: store_set_def insertAt_def)
  then show ?thesis by (auto dest: in_set_dropD)
next
  case (Some u)
  then have "c \<in> set (map fst s)"
    by (metis map_of_eq_None_iff option.distinct(1) set_map)
  then have "map fst (store_set x c v s) = map fst s"
    using Some by (simp add: store_set_def update_keys)
  then show ?thesis unfolding keys_drop by auto
qed

lemma set_drop_filter: "set (drop i (filter P s)) \<subseteq> set (drop i s) \<inter> Collect P"
proof (induction s arbitrary: i)
  case Nil
  show ?case by simp
next
  case (Cons a s)
  show ?case
  proof (cases i)
    case 0
    then show ?thesis by auto
  next
    case (Suc j)
    have "set (drop (Suc j) (filter P s)) \<subseteq> set (drop j (filter P s))"
      by (rule set_drop_subset_set_drop) simp
    with Cons.IH [of j] Suc show ?thesis by (cases "P a") auto
  qed
qed

lemma keys_drop_store_remove:
  "fst ` set (drop i (store_remove k s)) \<subseteq> fst ` set (drop i s) - {k}"
proof -
  have "store_remove k s = filter (\<lambda>p. fst p \<noteq> k) s"
    by (auto simp: store_remove_def AList.delete_eq intro: filter_cong)
  with set_drop_filter [of i "\<lambda>p. fst p \<noteq> k" s] show ?thesis by auto
qed

lemma loadEntry_drop:
  assumes place: "\<And>k ks. length ks \<le> placeKey x k ks"
    and step: "loadEntry x (k0, sj) w = (w1, None)"
    and at: "i < length (w_store w)" "w_store w ! i = (k0, sj)"
    and inv: "\<forall>k \<in> fst ` set (drop (Suc i) (w_store w)). \<not> migrated k"
  shows "\<forall>k \<in> fst ` set (drop i (w_store w1)). \<not> migrated k"
proof -
  from loadEntry_store [OF step] obtain s1 where both:
    "(s1 = w_store w \<or> (\<exists>c. \<not> migrated c \<and> s1 = store_set x c sj (w_store w))) \<and>
     ((w_store w1 = s1 \<and> (None = (None :: error option) \<longrightarrow> \<not> migrated k0)) \<or>
      (migrated k0 \<and>
       ((\<exists>e. canonicalKey x k0 = Inl e \<and> None = Some e \<and> w_store w1 = store_remove k0 s1) \<or>
        (\<exists>c. canonicalKey x k0 = Inr c \<and> None = (None :: error option) \<and>
             w_store w1 = store_set x c sj (store_remove k0 s1)))))" ..
  define D0 where "D0 = fst ` set (drop (Suc i) (w_store w))"
  define D1 where "D1 = fst ` set (drop i s1)"
  define D2 where "D2 = fst ` set (drop i (w_store w1))"
  from both have s1: "s1 = w_store w \<or> (\<exists>c. \<not> migrated c \<and> s1 = store_set x c sj (w_store w))"
    by (rule conjunct1)
  from both have alt: "(w_store w1 = s1 \<and> \<not> migrated k0) \<or>
      (migrated k0 \<and>
        (\<exists>c. canonicalKey x k0 = Inr c \<and> w_store w1 = store_set x c sj (store_remove k0 s1)))"
    by simp
  have "(k0, sj) # drop (Suc i) (w_store w) = drop i (w_store w)"
    using Cons_nth_drop_Suc [OF at(1)] at(2) by simp
  then have "fst ` set (drop i (w_store w)) = fst ` set ((k0, sj) # drop (Suc i) (w_store w))"
    by simp
  then have here: "fst ` set (drop i (w_store w)) = insert k0 D0"
    unfolding D0_def by simp
  have inv': "\<forall>k \<in> D0. \<not> migrated k"
    unfolding D0_def by (rule inv)
  have k1: "\<forall>k \<in> D1. k \<noteq> k0 \<longrightarrow> \<not> migrated k"
    using s1
  proof (elim disjE conjE exE)
    assume "s1 = w_store w"
    then have "D1 \<subseteq> insert k0 D0" by (simp only: D1_def here subset_refl)
    with inv' show ?thesis by auto
  next
    fix c
    assume c: "\<not> migrated c" and s: "s1 = store_set x c sj (w_store w)"
    have "fst ` set (drop i (store_set x c sj (w_store w))) \<subseteq>
            insert c (fst ` set (drop i (w_store w)))"
      by (rule keys_drop_store_set [OF place])
    then have "D1 \<subseteq> insert c (insert k0 D0)"
      by (simp only: D1_def s here)
    with c inv' show ?thesis by blast
  qed
  have "\<forall>k \<in> D2. \<not> migrated k"
    using alt
  proof (elim disjE conjE exE)
    assume "w_store w1 = s1" and k0: "\<not> migrated k0"
    then have "D2 \<subseteq> D1" by (simp only: D2_def D1_def subset_refl)
    with k1 k0 show ?thesis by auto
  next
    fix c
    assume c: "canonicalKey x k0 = Inr c"
      and w: "w_store w1 = store_set x c sj (store_remove k0 s1)"
    define R where "R = fst ` set (drop i (store_remove k0 s1))"
    have "fst ` set (drop i (store_set x c sj (store_remove k0 s1))) \<subseteq>
            insert c (fst ` set (drop i (store_remove k0 s1)))"
      by (rule keys_drop_store_set [OF place])
    then have "D2 \<subseteq> insert c R" by (simp only: D2_def w R_def)
    moreover have "R \<subseteq> D1 - {k0}"
      unfolding D1_def R_def by (rule keys_drop_store_remove)
    ultimately have "D2 \<subseteq> insert c (D1 - {k0})" by blast
    with k1 canonicalKey_canonical [OF c] show ?thesis by blast
  qed
  then show ?thesis unfolding D2_def .
qed

lemma eachFrom_no_legacy:
  assumes place: "\<And>k ks. length ks \<le> placeKey x k ks"
  shows "eachFrom (loadEntry x) i w = (w', None) \<Longrightarrow>
         \<forall>k \<in> fst ` set (drop i (w_store w)). \<not> migrated k \<Longrightarrow>
         \<forall>k \<in> fst ` set (w_store w'). \<not> migrated k"
proof (induction i arbitrary: w)
  case 0
  then show ?case by simp
next
  case (Suc i)
  show ?case
  proof (cases "i < length (w_store w)")
    case False
    with Suc.prems(1) have run: "eachFrom (loadEntry x) i w = (w', None)" by simp
    from False have "drop i (w_store w) = []" by simp
    then have "\<forall>k \<in> fst ` set (drop i (w_store w)). \<not> migrated k" by simp
    from Suc.IH [OF run this] show ?thesis .
  next
    case True
    obtain k0 sj where at: "w_store w ! i = (k0, sj)" by (cases "w_store w ! i")
    obtain w1 r1 where step: "loadEntry x (k0, sj) w = (w1, r1)"
      by (cases "loadEntry x (k0, sj) w")
    have r1: "r1 = None"
      using Suc.prems(1) True at step by (cases r1) simp_all
    with Suc.prems(1) True at step have run: "eachFrom (loadEntry x) i w1 = (w', None)"
      by simp
    from loadEntry_drop [OF place step [unfolded r1] True at Suc.prems(2)]
    have "\<forall>k \<in> fst ` set (drop i (w_store w1)). \<not> migrated k" .
    from Suc.IH [OF run this] show ?thesis .
  qed
qed

text \<open>\<^verbatim>\<open>loadAll\<close> as a whole.\<close>

lemma loadAll_completes:
  assumes "snd (loadAll x w) = None"
  shows "\<exists>w2. each (loadEntry x) (w\<lparr> w_state := addPairs x (w_state w) \<rparr>) = (w2, None) \<and>
              w_store (fst (loadAll x w)) = w_store w2"
proof -
  let ?w1 = "w\<lparr> w_state := addPairs x (w_state w) \<rparr>"
  obtain w2 r where run: "each (loadEntry x) ?w1 = (w2, r)"
    by (cases "each (loadEntry x) ?w1")
  with assms have r: "r = None"
    by (cases r) (simp_all add: loadAll_def Let_def)
  have "w_store (fst (loadAll x w)) = w_store w2"
    by (simp add: loadAll_def Let_def run r w_store_initOptions)
  with run r show ?thesis by blast
qed

lemma loadAll_written:
  assumes fin: "snd (loadAll x w) = None"
    and k: "k \<in> fst ` set (w_store w)" "migrated k"
    and gone: "k \<notin> fst ` set (w_store (fst (loadAll x w)))"
  shows "\<exists>c sj'. canonicalKey x k = Inr c \<and> store_get (w_store (fst (loadAll x w))) c = Some sj'"
proof -
  let ?w1 = "w\<lparr> w_state := addPairs x (w_state w) \<rparr>"
  from loadAll_completes [OF fin] obtain w2 where
    run: "each (loadEntry x) ?w1 = (w2, None)"
    and final: "w_store (fst (loadAll x w)) = w_store w2" by blast
  from eachFrom_visits [of "loadEntry x" "length (w_store ?w1)" ?w1] run
  obtain kvs where v: "visits (loadEntry x) kvs ?w1 = (w2, None)"
    unfolding each_def by auto
  have k1: "k \<in> fst ` set (w_store ?w1)" using k(1) by simp
  from gone final have g: "k \<notin> fst ` set (w_store w2)" by simp
  from visits_written [OF v] k1 k(2) g
  obtain c where c: "canonicalKey x k = Inr c" and "c \<in> fst ` set (w_store w2)" by blast
  then have "store_get (w_store w2) c \<noteq> None"
    by (simp add: store_get_def map_of_eq_None_iff)
  with c final show ?thesis by auto
qed

lemma loadAll_no_legacy:
  assumes place: "\<And>k ks. length ks \<le> placeKey x k ks"
    and fin: "snd (loadAll x w) = None"
  shows "\<forall>k \<in> fst ` set (w_store (fst (loadAll x w))). \<not> migrated k"
proof -
  let ?w1 = "w\<lparr> w_state := addPairs x (w_state w) \<rparr>"
  from loadAll_completes [OF fin] obtain w2 where
    run: "eachFrom (loadEntry x) (length (w_store ?w1)) ?w1 = (w2, None)"
    and final: "w_store (fst (loadAll x w)) = w_store w2"
    unfolding each_def by blast
  have "\<forall>k \<in> fst ` set (drop (length (w_store ?w1)) (w_store ?w1)). \<not> migrated k" by simp
  from eachFrom_no_legacy [OF place run this] show ?thesis unfolding final .
qed

text \<open>
  C2 as amended. When the visitor of \<^verbatim>\<open>loadAll\<close> is handed a key that one of the two
  patterns matches and whose address segment does not start with 0x, and returns, it has
  deleted that key and written the record under the canonical key; when the segment does
  not decode, so that there is no canonical key, it throws. \<^verbatim>\<open>loadAll\<close> never writes a
  key in legacy form. When it completes, every key in legacy form that was in the store
  is either still there, the enumeration never having handed it out, or has a record
  under its canonical key. When moreover the store lists a new key after the keys it
  holds, no key in legacy form is left, and each one that was in the store is deleted and
  has a record under its canonical key.
\<close>

theorem loadAll_migrates_visited_keys:
  "(migrated k \<and> loadEntry x (k, sj) w = (w', None) \<longrightarrow>
      (\<exists>c. canonicalKey x k = Inr c \<and> store_get (w_store w') c = Some sj \<and>
           store_get (w_store w') k = None)) \<and>
   (migrated k \<and> canonicalKey x k = Inl e \<longrightarrow> snd (loadEntry x (k, sj) w) \<noteq> None) \<and>
   (\<forall>k' \<in> fst ` set (w_store (fst (loadAll x w))).
      migrated k' \<longrightarrow> k' \<in> fst ` set (w_store w)) \<and>
   (snd (loadAll x w) = None \<longrightarrow>
      (\<forall>k' \<in> fst ` set (w_store w). migrated k' \<longrightarrow>
         k' \<in> fst ` set (w_store (fst (loadAll x w))) \<or>
         (\<exists>c sj'. canonicalKey x k' = Inr c \<and>
                  store_get (w_store (fst (loadAll x w))) c = Some sj'))) \<and>
   ((\<forall>k' ks. length ks \<le> placeKey x k' ks) \<and> snd (loadAll x w) = None \<longrightarrow>
      (\<forall>k' \<in> fst ` set (w_store (fst (loadAll x w))). \<not> migrated k') \<and>
      (\<forall>k' \<in> fst ` set (w_store w). migrated k' \<longrightarrow>
         store_get (w_store (fst (loadAll x w))) k' = None \<and>
         (\<exists>c sj'. canonicalKey x k' = Inr c \<and>
                  store_get (w_store (fst (loadAll x w))) c = Some sj')))"
proof -
  let ?final = "w_store (fst (loadAll x w))"
  have visit: "migrated k \<and> loadEntry x (k, sj) w = (w', None) \<longrightarrow>
      (\<exists>c. canonicalKey x k = Inr c \<and> store_get (w_store w') c = Some sj \<and>
           store_get (w_store w') k = None)"
  proof (intro impI, elim conjE)
    assume "migrated k" and "loadEntry x (k, sj) w = (w', None)"
    from loadEntry_migrates [OF this(2) this(1)]
    show "\<exists>c. canonicalKey x k = Inr c \<and> store_get (w_store w') c = Some sj \<and>
           store_get (w_store w') k = None" .
  qed
  have throws: "migrated k \<and> canonicalKey x k = Inl e \<longrightarrow> snd (loadEntry x (k, sj) w) \<noteq> None"
  proof (intro impI, elim conjE)
    assume "migrated k" and "canonicalKey x k = Inl e"
    then show "snd (loadEntry x (k, sj) w) \<noteq> None" by (rule loadEntry_throws)
  qed
  have fresh: "\<forall>k' \<in> fst ` set ?final. migrated k' \<longrightarrow> k' \<in> fst ` set (w_store w)"
    using loadAll_keys [of x w] by (rule conjunct1)
  have written: "\<exists>c sj'. canonicalKey x k' = Inr c \<and> store_get ?final c = Some sj'"
    if "snd (loadAll x w) = None" "k' \<in> fst ` set (w_store w)" "migrated k'"
       "k' \<notin> fst ` set ?final" for k'
    using that by (rule loadAll_written)
  have kept: "snd (loadAll x w) = None \<longrightarrow>
      (\<forall>k' \<in> fst ` set (w_store w). migrated k' \<longrightarrow>
         k' \<in> fst ` set ?final \<or>
         (\<exists>c sj'. canonicalKey x k' = Inr c \<and> store_get ?final c = Some sj'))"
  proof (intro impI ballI)
    fix k'
    assume fin: "snd (loadAll x w) = None" and k': "k' \<in> fst ` set (w_store w)"
      and mig: "migrated k'"
    show "k' \<in> fst ` set ?final \<or>
         (\<exists>c sj'. canonicalKey x k' = Inr c \<and> store_get ?final c = Some sj')"
    proof (cases "k' \<in> fst ` set ?final")
      case True
      then show ?thesis by (rule disjI1)
    next
      case False
      from written [OF fin k' mig False] show ?thesis by (rule disjI2)
    qed
  qed
  have ordered: "(\<forall>k' ks. length ks \<le> placeKey x k' ks) \<and> snd (loadAll x w) = None \<longrightarrow>
      (\<forall>k' \<in> fst ` set ?final. \<not> migrated k') \<and>
      (\<forall>k' \<in> fst ` set (w_store w). migrated k' \<longrightarrow>
         store_get ?final k' = None \<and>
         (\<exists>c sj'. canonicalKey x k' = Inr c \<and> store_get ?final c = Some sj'))"
  proof (intro impI, elim conjE)
    assume place: "\<forall>k' ks. length ks \<le> placeKey x k' ks" and fin: "snd (loadAll x w) = None"
    from place have "\<And>k ks. length ks \<le> placeKey x k ks" by simp
    from loadAll_no_legacy [OF this fin]
    have none: "\<forall>k' \<in> fst ` set ?final. \<not> migrated k'" .
    have each_one: "\<forall>k' \<in> fst ` set (w_store w). migrated k' \<longrightarrow>
         store_get ?final k' = None \<and>
         (\<exists>c sj'. canonicalKey x k' = Inr c \<and> store_get ?final c = Some sj')"
    proof (intro ballI impI)
      fix k'
      assume k': "k' \<in> fst ` set (w_store w)" and mig: "migrated k'"
      have gone: "k' \<notin> fst ` set ?final"
      proof
        assume "k' \<in> fst ` set ?final"
        with none have "\<not> migrated k'" by (rule bspec)
        with mig show False by (rule notE [rotated])
      qed
      then have "store_get ?final k' = None"
        by (simp add: store_get_def map_of_eq_None_iff)
      then show "store_get ?final k' = None \<and>
         (\<exists>c sj'. canonicalKey x k' = Inr c \<and> store_get ?final c = Some sj')"
        using written [OF fin k' mig gone] by (rule conjI)
    qed
    from none each_one
    show "(\<forall>k' \<in> fst ` set ?final. \<not> migrated k') \<and>
      (\<forall>k' \<in> fst ` set (w_store w). migrated k' \<longrightarrow>
         store_get ?final k' = None \<and>
         (\<exists>c sj'. canonicalKey x k' = Inr c \<and> store_get ?final c = Some sj'))"
      by (rule conjI)
  qed
  show ?thesis
    by (rule conjI [OF visit conjI [OF throws conjI [OF fresh conjI [OF kept ordered]]]])
qed

theorem loadAll_migrates_visited_keys_witness:
  "migrated ''account:5Alice'' \<and>
   snd (loadEntry sampleExt (''account:5Alice'', stored aliceJson) (worldOver legacyStore)) = None \<and>
   canonicalKey sampleExt ''account:5Alice'' = Inr ''account:0x01'' \<and>
   store_get (w_store (fst (loadEntry sampleExt (''account:5Alice'', stored aliceJson)
                              (worldOver legacyStore)))) ''account:0x01'' = Some (stored aliceJson) \<and>
   store_get (w_store (fst (loadEntry sampleExt (''account:5Alice'', stored aliceJson)
                              (worldOver legacyStore)))) ''account:5Alice'' = None \<and>
   migrated ''account:5Carol'' \<and>
   canonicalKey sampleExt ''account:5Carol'' = Inl InvalidAddress \<and>
   snd (loadEntry sampleExt (''account:5Carol'', stored carolJson) (worldOver staleStore)) =
     Some InvalidAddress \<and>
   (\<forall>k ks. length ks \<le> placeKey sampleExt k ks) \<and>
   snd (loadAll sampleExt (worldOver legacyStore)) = None \<and>
   w_store (worldOver legacyStore) =
     [(''account:5Alice'', stored aliceJson), (''address:0x02'', stored bobAddressJson)] \<and>
   w_store (fst (loadAll sampleExt (worldOver legacyStore))) =
     [(''address:0x02'', stored bobAddressJson), (''account:0x01'', stored aliceJson)] \<and>
   migrated ''account:5Bob'' \<and>
   canonicalKey sortingExt ''account:5Bob'' = Inr ''account:0x02'' \<and>
   snd (loadAll sortingExt (worldOver twoLegacyStore)) = None \<and>
   w_store (worldOver twoLegacyStore) =
     [(''account:5Alice'', stored aliceJson), (''account:5Bob'', stored bobJson)] \<and>
   w_store (fst (loadAll sortingExt (worldOver twoLegacyStore))) =
     [(''account:0x02'', stored bobJson), (''account:5Alice'', stored aliceJson)]"
proof -
  let ?w1 = "fst (loadEntry sampleExt (''account:5Alice'', stored aliceJson)
                    (worldOver legacyStore))"
  have legacy: "migrated ''account:5Alice''" by code_simp
  have returns: "snd (loadEntry sampleExt (''account:5Alice'', stored aliceJson)
                        (worldOver legacyStore)) = None" by code_simp
  then have visit: "loadEntry sampleExt (''account:5Alice'', stored aliceJson)
                      (worldOver legacyStore) = (?w1, None)"
    by (simp add: prod_eq_iff)
  have key: "canonicalKey sampleExt ''account:5Alice'' = Inr ''account:0x01''" by code_simp
  have there: "store_get (w_store ?w1) ''account:0x01'' = Some (stored aliceJson)" by code_simp
  have gone: "store_get (w_store ?w1) ''account:5Alice'' = None" by code_simp
  have stale: "migrated ''account:5Carol''" by code_simp
  have nokey: "canonicalKey sampleExt ''account:5Carol'' = Inl InvalidAddress" by code_simp
  have thrown: "snd (loadEntry sampleExt (''account:5Carol'', stored carolJson)
                       (worldOver staleStore)) = Some InvalidAddress" by code_simp
  have place: "\<forall>k ks. length ks \<le> placeKey sampleExt k ks" by (simp add: sampleExt_def)
  have fin: "snd (loadAll sampleExt (worldOver legacyStore)) = None" by code_simp
  have start: "w_store (worldOver legacyStore) =
     [(''account:5Alice'', stored aliceJson), (''address:0x02'', stored bobAddressJson)]"
    by (simp add: worldOver_def legacyStore_def)
  have final: "w_store (fst (loadAll sampleExt (worldOver legacyStore))) =
     [(''address:0x02'', stored bobAddressJson), (''account:0x01'', stored aliceJson)]"
    by code_simp
  have bob: "migrated ''account:5Bob''" by code_simp
  have bobkey: "canonicalKey sortingExt ''account:5Bob'' = Inr ''account:0x02''" by code_simp
  have fin2: "snd (loadAll sortingExt (worldOver twoLegacyStore)) = None" by code_simp
  have start2: "w_store (worldOver twoLegacyStore) =
     [(''account:5Alice'', stored aliceJson), (''account:5Bob'', stored bobJson)]"
    by (simp add: worldOver_def twoLegacyStore_def)
  have final2: "w_store (fst (loadAll sortingExt (worldOver twoLegacyStore))) =
     [(''account:0x02'', stored bobJson), (''account:5Alice'', stored aliceJson)]"
    by code_simp
  show ?thesis
    using loadAll_migrates_visited_keys
            [of "''account:5Alice''" sampleExt "stored aliceJson" "worldOver legacyStore" ?w1
                InvalidAddress]
          loadAll_migrates_visited_keys
            [of "''account:5Carol''" sampleExt "stored carolJson" "worldOver staleStore" ?w1
                InvalidAddress]
          loadAll_migrates_visited_keys
            [of "''account:5Bob''" sortingExt "stored bobJson" "worldOver twoLegacyStore" ?w1
                InvalidAddress]
          legacy returns key there gone stale nokey thrown place fin start final
          bob bobkey fin2 start2 final2
    by (intro conjI) assumption+
qed

text \<open>
  Against C2 as stated. A store that lists a new key before the keys it holds, with the
  accounts of alice and bob under keys in legacy form: the visitor migrates bob's key, the
  canonical key takes the first position, the enumeration steps down to it, and
  \<^verbatim>\<open>loadAll\<close> completes with alice's key in legacy form still in the store and no
  record under alice's canonical key. And a store with a record under a key whose address
  segment does not decode: the visitor deletes the key and throws while building the
  canonical key, so \<^verbatim>\<open>loadAll\<close> throws and the record is in the store under no key.
\<close>

theorem loadAll_leaves_legacy_key_counterexample:
  "migrated ''account:5Alice'' \<and>
   store_get (w_store (worldOver twoLegacyStore)) ''account:5Alice'' = Some (stored aliceJson) \<and>
   snd (loadAll sortingExt (worldOver twoLegacyStore)) = None \<and>
   w_store (fst (loadAll sortingExt (worldOver twoLegacyStore))) =
     [(''account:0x02'', stored bobJson), (''account:5Alice'', stored aliceJson)] \<and>
   canonicalKey sortingExt ''account:5Alice'' = Inr ''account:0x01'' \<and>
   store_get (w_store (fst (loadAll sortingExt (worldOver twoLegacyStore)))) ''account:0x01'' = None \<and>
   migrated ''account:5Carol'' \<and>
   store_get (w_store (worldOver staleStore)) ''account:5Carol'' = Some (stored carolJson) \<and>
   loadAll sampleExt (worldOver staleStore) = (worldOver [], Some InvalidAddress)"
  by code_simp

end
